theory Spec2Isabelle
  imports Main "HOL-Library.Word"
begin

section \<open>The remote state watcher of the uniter (package remotestate)\<close>

text \<open>
  The watcher collects the changes of several state watchers in one Snapshot and signals
  on the channel \<open>out\<close>. Every handler of the Go source becomes a function from the
  watcher's state to the pair of the error it returns (\<open>None\<close> for \<open>nil\<close>) and the state
  it leaves behind: Go mutates the receiver in place, so a state is left also when an
  error is returned. What the backing store, the sub-watchers and the channels deliver is
  an argument of the handler. The mutex \<open>mu\<close> makes each locked section one atomic step;
  the model runs the handlers one after another.
\<close>

subsection \<open>Errors\<close>

text \<open>
  \<open>Trace\<close> and \<open>Annotatef\<close> are the wrappers of \<open>github.com/juju/errors\<close>; \<open>Cause\<close>
  unwraps them. \<open>ErrTerminateAgent\<close> is \<open>worker.ErrTerminateAgent\<close> and \<open>ErrDying\<close> is
  \<open>tomb.ErrDying\<close>. An argument of a format string is kept unformatted.
\<close>

datatype fmt_arg = ReadableString string

datatype error =
    NotFound string
  | Unauthorized string
  | Failure string
  | ErrTerminateAgent
  | ErrDying
  | Trace error
  | Annotatef error string "fmt_arg list"
  | IndexOutOfRange
  | NilMapWrite

fun Cause :: "error \<Rightarrow> error" where
  "Cause (Trace e) = Cause e"
| "Cause (Annotatef e f args) = Cause e"
| "Cause e = e"

text \<open>
  Modelled from the spec: the predicates of package \<open>params\<close> are not part of the
  sources; the spec has errors "classified by a pair of predicates:
  is-not-found-or-unauthorized and is-not-found". They read the code of the cause of
  the error, and are false of \<open>nil\<close>.
\<close>

fun IsCodeNotFound :: "error option \<Rightarrow> bool" where
  "IsCodeNotFound None = False"
| "IsCodeNotFound (Some e) = (case Cause e of NotFound m \<Rightarrow> True | _ \<Rightarrow> False)"

fun IsCodeUnauthorized :: "error option \<Rightarrow> bool" where
  "IsCodeUnauthorized None = False"
| "IsCodeUnauthorized (Some e) = (case Cause e of Unauthorized m \<Rightarrow> True | _ \<Rightarrow> False)"

definition IsCodeNotFoundOrCodeUnauthorized :: "error option \<Rightarrow> bool" where
  "IsCodeNotFoundOrCodeUnauthorized err = (IsCodeNotFound err \<or> IsCodeUnauthorized err)"

subsection \<open>The Snapshot\<close>

text \<open>
  Modelled from the spec: the declarations of \<open>Snapshot\<close>, \<open>RelationSnapshot\<close> and
  \<open>StorageSnapshot\<close> are not part of the sources; the fields are those of section 3 of
  the spec. \<open>LifeZero\<close> and \<open>ResolvedNone\<close> are the zero values of the two string types.
  The two version counters are Go \<open>int\<close>s, which the handlers increase with \<open>++\<close>: a
  word of the platform's width \<open>'w\<close>, read as a signed number by \<open>sint\<close>. The versions of
  the settings of a unit are \<open>int64\<close>. A relation id is only ever a key.

  \<open>Members\<close> is a Go map, that is a reference: copying a RelationSnapshot copies the
  reference, not the map. The maps live in the store \<open>members\<close> of the watcher, and a
  RelationSnapshot holds the address of its map (\<open>None\<close> for the nil map of the zero
  value). The maps \<open>Relations\<close> and \<open>Storage\<close> are only ever reached through
  \<open>w.current\<close>, so they are values.
\<close>

datatype Life = LifeZero | Alive | Dying | Dead

datatype ResolvedMode = ResolvedNone | ResolvedRetryHooks | ResolvedNoHooks

type_synonym addr = nat
type_synonym RelationTag = string
type_synonym StorageTag = string

record RelationSnapshot =
  Life :: Life
  Members :: "addr option"

record StorageSnapshot =
  Tag :: StorageTag
  StorageLife :: Life
  Kind :: nat
  Location :: string
  Attached :: bool

record (overloaded) ('w::len) Snapshot =
  UnitLife :: Life
  ResolvedMode :: ResolvedMode
  CharmURL :: "string option"
  ForceCharmUpgrade :: bool
  ConfigVersion :: "'w word"
  LeaderSettingsVersion :: "'w word"
  Leader :: bool
  Relations :: "int \<rightharpoonup> RelationSnapshot"
  Storage :: "StorageTag \<rightharpoonup> StorageSnapshot"

subsection \<open>The watcher\<close>

text \<open>
  A sub-watcher is a running task; \<open>running_relation_units\<close> and
  \<open>running_storage_attachment\<close> are the tasks that were started and not stopped, each
  with the number it got when it was started and the tag it watches. \<open>unit\<close> and
  \<open>service\<close> hold the tags of the two entities (\<open>None\<close> for nil). \<open>members\<close> is the
  store of the \<open>Members\<close> maps: \<open>make\<close> takes the address \<open>next_addr\<close>. \<open>out_sent\<close>
  counts the signals that were sent on \<open>out\<close>.
\<close>

record relationUnitsWatcher =
  ruw_relationId :: int
  ruw_task :: nat

record (overloaded) ('w::len) RemoteStateWatcher =
  unit :: "string option"
  service :: "string option"
  relations :: "RelationTag \<rightharpoonup> relationUnitsWatcher"
  storageAttachementWatchers :: "StorageTag \<rightharpoonup> nat"
  current :: "'w Snapshot"
  members :: "addr \<Rightarrow> (string \<rightharpoonup> 64 word)"
  next_addr :: addr
  running_relation_units :: "(nat \<times> RelationTag) set"
  running_storage_attachment :: "(nat \<times> StorageTag) set"
  next_task :: nat
  out_sent :: nat

text \<open>
  \<open>Snapshot\<close> copies \<open>w.current\<close> and gives the copy two new maps with the entries of
  \<open>Relations\<close> and \<open>Storage\<close>. The entries are copied by assignment: a RelationSnapshot
  of the copy holds the same \<open>Members\<close> address as the one of the watcher.
\<close>

definition Snapshot_read :: "'w::len RemoteStateWatcher \<Rightarrow> 'w Snapshot" where
  "Snapshot_read w = (current w)\<lparr>Relations := Relations (current w), Storage := Storage (current w)\<rparr>"

definition ClearResolvedMode :: "'w::len RemoteStateWatcher \<Rightarrow> 'w RemoteStateWatcher" where
  "ClearResolvedMode w = w\<lparr>current := (current w)\<lparr>ResolvedMode := ResolvedNone\<rparr>\<rparr>"

subsection \<open>The handlers of the primary sources\<close>

text \<open>What \<open>w.unit\<close> and \<open>w.service\<close> answer when a handler refreshes them.\<close>

record unit_reply =
  unit_Refresh :: "error option"
  unit_Resolved :: "error + ResolvedMode"
  unit_Life :: Life

record service_reply =
  service_Refresh :: "error option"
  service_CharmURL :: "error + (string option \<times> bool)"

definition unitChanged ::
  "unit_reply \<Rightarrow> 'w::len RemoteStateWatcher \<Rightarrow> error option \<times> 'w RemoteStateWatcher" where
  "unitChanged r w =
     (case unit_Refresh r of
        Some err \<Rightarrow> (Some err, w)
      | None \<Rightarrow>
          (case unit_Resolved r of
             Inl err \<Rightarrow> (Some err, w)
           | Inr resolved \<Rightarrow>
               (None, w\<lparr>current := (current w)\<lparr>UnitLife := unit_Life r, ResolvedMode := resolved\<rparr>\<rparr>)))"

definition serviceChanged ::
  "service_reply \<Rightarrow> 'w::len RemoteStateWatcher \<Rightarrow> error option \<times> 'w RemoteStateWatcher" where
  "serviceChanged r w =
     (case service_Refresh r of
        Some err \<Rightarrow> (Some err, w)
      | None \<Rightarrow>
          (case service_CharmURL r of
             Inl err \<Rightarrow> (Some err, w)
           | Inr (url, force) \<Rightarrow>
               (None, w\<lparr>current := (current w)\<lparr>CharmURL := url, ForceCharmUpgrade := force\<rparr>\<rparr>)))"

definition configChanged ::
  "'w::len RemoteStateWatcher \<Rightarrow> error option \<times> 'w RemoteStateWatcher" where
  "configChanged w =
     (None, w\<lparr>current := (current w)\<lparr>ConfigVersion := ConfigVersion (current w) + 1\<rparr>\<rparr>)"

definition addressesChanged ::
  "'w::len RemoteStateWatcher \<Rightarrow> error option \<times> 'w RemoteStateWatcher" where
  "addressesChanged w =
     (None, w\<lparr>current := (current w)\<lparr>ConfigVersion := ConfigVersion (current w) + 1\<rparr>\<rparr>)"

definition leaderSettingsChanged ::
  "'w::len RemoteStateWatcher \<Rightarrow> error option \<times> 'w RemoteStateWatcher" where
  "leaderSettingsChanged w =
     (None, w\<lparr>current := (current w)
        \<lparr>LeaderSettingsVersion := LeaderSettingsVersion (current w) + 1\<rparr>\<rparr>)"

definition leadershipChanged ::
  "bool \<Rightarrow> 'w::len RemoteStateWatcher \<Rightarrow> error option \<times> 'w RemoteStateWatcher" where
  "leadershipChanged isLeader w = (None, w\<lparr>current := (current w)\<lparr>Leader := isLeader\<rparr>\<rparr>)"

subsection \<open>Relations\<close>

text \<open>
  What the backing store and the new relation-units watcher \<open>in\<close> answer while one key
  of a relations change is handled: the lookup of the relation (its id and life), the
  \<open>Stop\<close> of the sub-watcher of the key, \<open>WatchRelationUnits\<close>, and the \<open>select\<close> on the
  dying channel and the first change of \<open>in\<close> (\<open>InClosed\<close> carries what
  \<open>watcher.EnsureErr\<close> returns). The \<open>Changed\<close> map of a change arrives as the list of
  its entries; a Go map has each key once, so the order of the \<open>range\<close> loop does not
  matter. \<open>Stop\<close> ends the task of the sub-watcher whatever it returns; when it returns
  an error the entries of the relation stay.
\<close>

datatype in_select = InDying | InClosed error | InChange "(string \<times> 64 word) list"

record relation_reply =
  st_Relation :: "error + (int \<times> Life)"
  ruw_Stop :: "error option"
  st_WatchRelationUnits :: "error option"
  in_Changes :: in_select

definition set_members ::
  "(string \<times> 64 word) list \<Rightarrow> (string \<rightharpoonup> 64 word) \<Rightarrow> (string \<rightharpoonup> 64 word)" where
  "set_members changed m = fold (\<lambda>(unit, version) m. m(unit \<mapsto> version)) changed m"

definition delete_members ::
  "string list \<Rightarrow> (string \<rightharpoonup> 64 word) \<Rightarrow> (string \<rightharpoonup> 64 word)" where
  "delete_members departed m = fold (\<lambda>unit m. m(unit := None)) departed m"

definition relationsChanged_key ::
  "string \<Rightarrow> relation_reply \<Rightarrow> 'w::len RemoteStateWatcher
     \<Rightarrow> error option \<times> 'w RemoteStateWatcher" where
  "relationsChanged_key key r w =
     (let relationTag = key in
      case st_Relation r of
        Inl err \<Rightarrow>
          if IsCodeNotFoundOrCodeUnauthorized (Some err) then
            (case relations w relationTag of
               Some ruw \<Rightarrow>
                 (let w1 = w\<lparr>running_relation_units :=
                             running_relation_units w - {(ruw_task ruw, relationTag)}\<rparr>
                  in case ruw_Stop r of
                       Some e \<Rightarrow> (Some (Trace e), w1)
                     | None \<Rightarrow>
                         (None, w1\<lparr>relations := (relations w1)(relationTag := None),
                                    current := (current w1)\<lparr>Relations :=
                                      (Relations (current w1))(ruw_relationId ruw := None)\<rparr>\<rparr>))
             | None \<Rightarrow> (None, w))
          else (Some err, w)
      | Inr (rel_Id, rel_Life) \<Rightarrow>
          (case relations w relationTag of
             Some ruw \<Rightarrow>
               (let relationSnapshot =
                      (case Relations (current w) rel_Id of
                         Some s \<Rightarrow> s
                       | None \<Rightarrow> \<lparr>Life = LifeZero, Members = None\<rparr>)
                in (None, w\<lparr>current := (current w)\<lparr>Relations :=
                     (Relations (current w))(rel_Id \<mapsto> relationSnapshot\<lparr>Life := rel_Life\<rparr>)\<rparr>\<rparr>))
           | None \<Rightarrow>
               (case st_WatchRelationUnits r of
                  Some err \<Rightarrow> (Some (Trace err), w)
                | None \<Rightarrow>
                    (let task = next_task w;
                         a = next_addr w;
                         w1 = w\<lparr>running_relation_units :=
                                  insert (task, relationTag) (running_relation_units w),
                                next_task := Suc task,
                                members := (members w)(a := Map.empty),
                                next_addr := Suc a\<rparr>;
                         relationSnapshot = \<lparr>Life = rel_Life, Members = Some a\<rparr>
                     in case in_Changes r of
                          InDying \<Rightarrow> (Some ErrDying, w1)
                        | InClosed err \<Rightarrow> (Some err, w1)
                        | InChange changed \<Rightarrow>
                            (None, w1\<lparr>members := (members w1)
                                         (a := set_members changed (members w1 a)),
                                       current := (current w1)\<lparr>Relations :=
                                         (Relations (current w1))(rel_Id \<mapsto> relationSnapshot)\<rparr>,
                                       relations := (relations w1)(relationTag \<mapsto>
                                         \<lparr>ruw_relationId = rel_Id, ruw_task = task\<rparr>)\<rparr>)))))"

fun relationsChanged ::
  "(string \<times> relation_reply) list \<Rightarrow> 'w::len RemoteStateWatcher
     \<Rightarrow> error option \<times> 'w RemoteStateWatcher" where
  "relationsChanged [] w = (None, w)"
| "relationsChanged ((key, r) # keys) w =
     (case relationsChanged_key key r w of
        (Some err, w') \<Rightarrow> (Some err, w')
      | (None, w') \<Rightarrow> relationsChanged keys w')"

text \<open>
  A change of the units of a relation, as the relation-units sub-watcher sends it on
  \<open>relationUnitsChanges\<close>. Writing to a nil map panics in Go: \<open>NilMapWrite\<close>.
\<close>

record relationUnitsChange =
  relationId :: int
  Changed :: "(string \<times> 64 word) list"
  Departed :: "string list"

definition relationUnitsChanged ::
  "relationUnitsChange \<Rightarrow> 'w::len RemoteStateWatcher \<Rightarrow> error option \<times> 'w RemoteStateWatcher" where
  "relationUnitsChanged change w =
     (case Relations (current w) (relationId change) of
        None \<Rightarrow> (None, w)
      | Some snapshot \<Rightarrow>
          (case Members snapshot of
             None \<Rightarrow> if Changed change = [] then (None, w) else (Some NilMapWrite, w)
           | Some a \<Rightarrow>
               (None, w\<lparr>members := (members w)
                  (a := delete_members (Departed change)
                          (set_members (Changed change) (members w a)))\<rparr>)))"

subsection \<open>Storage\<close>

text \<open>
  An event of a storage-attachment sub-watcher, as it arrives on \<open>storageAttachment\<close>.
\<close>

record StorageSnapshotEvent =
  event_StorageSnapshot :: StorageSnapshot
  remove :: bool

definition storageAttachmentChanged ::
  "StorageSnapshotEvent \<Rightarrow> 'w::len RemoteStateWatcher \<Rightarrow> error option \<times> 'w RemoteStateWatcher" where
  "storageAttachmentChanged event w =
     (if remove event then
        (None, w\<lparr>current := (current w)\<lparr>Storage :=
           (Storage (current w))(Tag (event_StorageSnapshot event) := None)\<rparr>\<rparr>)
      else
        (None, w\<lparr>current := (current w)\<lparr>Storage :=
           (Storage (current w))(Tag (event_StorageSnapshot event) \<mapsto> event_StorageSnapshot event)\<rparr>\<rparr>))"

text \<open>
  What the backing store answers to a storage change: the result of the batched
  \<open>StorageAttachmentLife\<close> query and, for the key at each position of the payload, what
  \<open>newStorageAttachmentWatcher\<close> and the \<open>Stop\<close> of its sub-watcher return. \<open>Stop\<close> kills
  the task and waits for it: the task is over whatever \<open>Stop\<close> returns.
\<close>

record LifeResult =
  result_Life :: Life
  result_Error :: "error option"

record storage_reply =
  st_StorageAttachmentLife :: "error + LifeResult list"
  newStorageAttachmentWatcher :: "nat \<Rightarrow> error option"
  watcher_Stop :: "nat \<Rightarrow> error option"

definition startStorageAttachmentWatcher ::
  "error option \<Rightarrow> StorageTag \<Rightarrow> 'w::len RemoteStateWatcher
     \<Rightarrow> error option \<times> 'w RemoteStateWatcher" where
  "startStorageAttachmentWatcher new_err tag w =
     (case storageAttachementWatchers w tag of
        Some watcher \<Rightarrow> (None, w)
      | None \<Rightarrow>
          (case new_err of
             Some err \<Rightarrow> (Some (Trace err), w)
           | None \<Rightarrow>
               (None, w\<lparr>storageAttachementWatchers :=
                          (storageAttachementWatchers w)(tag \<mapsto> next_task w),
                        running_storage_attachment :=
                          insert (next_task w, tag) (running_storage_attachment w),
                        next_task := Suc (next_task w)\<rparr>)))"

definition stopStorageAttachmentWatcher ::
  "error option \<Rightarrow> StorageTag \<Rightarrow> 'w::len RemoteStateWatcher
     \<Rightarrow> error option \<times> 'w RemoteStateWatcher" where
  "stopStorageAttachmentWatcher stop_err tag w =
     (case storageAttachementWatchers w tag of
        None \<Rightarrow> (None, w)
      | Some watcher \<Rightarrow>
          (stop_err, w\<lparr>storageAttachementWatchers := (storageAttachementWatchers w)(tag := None),
                       running_storage_attachment :=
                         running_storage_attachment w - {(watcher, tag)}\<rparr>))"

definition storageChanged_result ::
  "storage_reply \<Rightarrow> nat \<Rightarrow> LifeResult \<Rightarrow> StorageTag \<Rightarrow> 'w::len RemoteStateWatcher
     \<Rightarrow> error option \<times> 'w RemoteStateWatcher" where
  "storageChanged_result r i result tag w =
     (if result_Error result = None then
        (let storageSnapshot =
               (case Storage (current w) tag of
                  Some s \<Rightarrow> s
                | None \<Rightarrow> \<lparr>Tag = tag, StorageLife = result_Life result, Kind = 0,
                           Location = [], Attached = False\<rparr>);
             storageSnapshot = storageSnapshot\<lparr>StorageLife := result_Life result\<rparr>;
             w1 = w\<lparr>current := (current w)\<lparr>Storage :=
                      (Storage (current w))(tag \<mapsto> storageSnapshot)\<rparr>\<rparr>
         in case startStorageAttachmentWatcher (newStorageAttachmentWatcher r i) tag w1 of
              (Some err, w2) \<Rightarrow>
                (Some (Annotatef err ''starting watcher of %s attachment'' [ReadableString tag]), w2)
            | (None, w2) \<Rightarrow> (None, w2))
      else if IsCodeNotFound (result_Error result) then
        (let w1 = w\<lparr>current := (current w)\<lparr>Storage := (Storage (current w))(tag := None)\<rparr>\<rparr>
         in case stopStorageAttachmentWatcher (watcher_Stop r i) tag w1 of
              (Some err, w2) \<Rightarrow>
                (Some (Annotatef err ''stopping watcher of %s attachment'' [ReadableString tag]), w2)
            | (None, w2) \<Rightarrow> (None, w2))
      else
        (case result_Error result of
           Some err \<Rightarrow>
             (Some (Annotatef err ''getting life of %s attachment'' [ReadableString tag]), w)
         | None \<Rightarrow> (None, w)))"

text \<open>
  The loop over the results reads \<open>tags[i]\<close>: with more results than keys the index is
  out of range and Go panics.
\<close>

fun storageChanged_results ::
  "storage_reply \<Rightarrow> nat \<Rightarrow> LifeResult list \<Rightarrow> StorageTag list \<Rightarrow> 'w::len RemoteStateWatcher
     \<Rightarrow> error option \<times> 'w RemoteStateWatcher" where
  "storageChanged_results r i [] tags w = (None, w)"
| "storageChanged_results r i (result # results) [] w = (Some IndexOutOfRange, w)"
| "storageChanged_results r i (result # results) (tag # tags) w =
     (case storageChanged_result r i result tag w of
        (Some err, w') \<Rightarrow> (Some err, w')
      | (None, w') \<Rightarrow> storageChanged_results r (Suc i) results tags w')"

definition storageChanged ::
  "string list \<Rightarrow> storage_reply \<Rightarrow> 'w::len RemoteStateWatcher
     \<Rightarrow> error option \<times> 'w RemoteStateWatcher" where
  "storageChanged keys r w =
     (let tags = keys in
      case st_StorageAttachmentLife r of
        Inl err \<Rightarrow> (Some (Trace err), w)
      | Inr results \<Rightarrow> storageChanged_results r 0 results tags w)"

subsection \<open>The loop\<close>

text \<open>
  The local variables of \<open>loop\<close>. The eight \<open>seen...Change\<close> booleans are passed to
  \<open>observedEvent\<close> by address: \<open>flag\<close> is the type of these addresses and \<open>seen\<close> their
  contents. The two counters never exceed eight. \<open>waitLeader\<close> and \<open>waitMinion\<close> say
  whether the channel of that name is set (a nil channel is never ready).
\<close>

datatype flag =
    seenUnitChange | seenServiceChange | seenConfigChange | seenRelationsChange
  | seenAddressesChange | seenStorageChange | seenLeaderSettingsChange | seenLeadershipChange

record (overloaded) ('w::len) loop_state =
  watcher :: "'w RemoteStateWatcher"
  requiredEvents :: nat
  eventsObserved :: nat
  seen :: "flag \<Rightarrow> bool"
  waitLeader :: bool
  waitMinion :: bool

definition observedEvent :: "flag \<Rightarrow> 'w::len loop_state \<Rightarrow> 'w loop_state" where
  "observedEvent flag s =
     (if \<not> seen s flag
      then s\<lparr>seen := (seen s)(flag := True), eventsObserved := eventsObserved s + 1\<rparr>
      else s)"

text \<open>
  The send on \<open>out\<close> does not block: it happens when a receiver is waiting on the
  unbuffered channel (\<open>receiver\<close>), and is dropped otherwise.
\<close>

definition fire :: "bool \<Rightarrow> 'w::len loop_state \<Rightarrow> 'w loop_state" where
  "fire receiver s =
     (if eventsObserved s \<noteq> requiredEvents s then s
      else if receiver then s\<lparr>watcher := (watcher s)\<lparr>out_sent := out_sent (watcher s) + 1\<rparr>\<rparr>
      else s)"

text \<open>What starting the seven watchers returns, in the order of the source.\<close>

record watch_reply =
  unit_Watch :: "error option"
  service_Watch :: "error option"
  unit_WatchConfigSettings :: "error option"
  service_WatchRelations :: "error option"
  unit_WatchAddresses :: "error option"
  unit_WatchStorage :: "error option"
  service_WatchLeadershipSettings :: "error option"

definition required :: "'w::len loop_state \<Rightarrow> 'w loop_state" where
  "required s = s\<lparr>requiredEvents := requiredEvents s + 1\<rparr>"

definition loop_watchers ::
  "watch_reply \<Rightarrow> 'w::len RemoteStateWatcher \<Rightarrow> error + 'w loop_state" where
  "loop_watchers r w =
     (let s = \<lparr>watcher = w, requiredEvents = 0, eventsObserved = 0, seen = (\<lambda>flag. False),
                waitLeader = False, waitMinion = False\<rparr>
      in case unit_Watch r of Some err \<Rightarrow> Inl err | None \<Rightarrow>
         (let s = required s
          in case service_Watch r of Some err \<Rightarrow> Inl err | None \<Rightarrow>
         (let s = required s
          in case unit_WatchConfigSettings r of Some err \<Rightarrow> Inl err | None \<Rightarrow>
         (let s = required s
          in case service_WatchRelations r of Some err \<Rightarrow> Inl err | None \<Rightarrow>
         (let s = required s
          in case unit_WatchAddresses r of Some err \<Rightarrow> Inl err | None \<Rightarrow>
         (let s = required s
          in case unit_WatchStorage r of Some err \<Rightarrow> Inl err | None \<Rightarrow>
         (let s = required s
          in case service_WatchLeadershipSettings r of Some err \<Rightarrow> Inl err | None \<Rightarrow>
         (let s = required s
          in Inr (required s)))))))))"

text \<open>
  The \<open>select\<close> on the dying channel and on \<open>claimLeader.Ready()\<close>. A Go \<open>select\<close>
  blocks while no case is ready (\<open>None\<close>) and takes any one of the ready cases: \<open>pick\<close>
  is the choice of the runtime when both are. \<open>dying\<close> says that the tomb was killed,
  \<open>ticket\<close> is the result of the claim once it is ready.
\<close>

datatype claim_case = ClaimDying | ClaimReady bool

fun claimLeader_select :: "bool \<Rightarrow> bool option \<Rightarrow> bool \<Rightarrow> claim_case option" where
  "claimLeader_select False None pick = None"
| "claimLeader_select True None pick = Some ClaimDying"
| "claimLeader_select False (Some isLeader) pick = Some (ClaimReady isLeader)"
| "claimLeader_select True (Some isLeader) pick =
     Some (if pick then ClaimDying else ClaimReady isLeader)"

definition loop_claimLeader :: "claim_case \<Rightarrow> 'w::len loop_state \<Rightarrow> error + 'w loop_state" where
  "loop_claimLeader c s =
     (case c of
        ClaimDying \<Rightarrow> Inl ErrDying
      | ClaimReady isLeader \<Rightarrow>
          (let s = s\<lparr>watcher := snd (leadershipChanged isLeader (watcher s))\<rparr>;
               s = (if isLeader then s\<lparr>waitMinion := True\<rparr> else s\<lparr>waitLeader := True\<rparr>)
           in Inr (observedEvent seenLeadershipChange s)))"

text \<open>
  One case of the \<open>select\<close> of the \<open>for\<close> loop, with what was received. \<open>Closed\<close> is a
  receive from a closed channel (\<open>ok\<close> is false) with the error that \<open>watcher.EnsureErr\<close>
  then returns; a change carries what the backing store answers to its handler.
\<close>

datatype 'a received = Closed error | Received 'a

datatype event =
    OnDying
  | OnUnit "unit_reply received"
  | OnService "service_reply received"
  | OnConfig "unit received"
  | OnAddresses "unit received"
  | OnLeaderSettings "unit received"
  | OnRelations "(string \<times> relation_reply) list received"
  | OnStorage "(string list \<times> storage_reply) received"
  | OnWaitMinion
  | OnWaitLeader
  | OnStorageAttachment "StorageSnapshotEvent option"
  | OnRelationUnits relationUnitsChange

definition handled ::
  "flag \<Rightarrow> 'w::len loop_state \<Rightarrow> error option \<times> 'w RemoteStateWatcher
     \<Rightarrow> error option \<times> 'w loop_state" where
  "handled flag s res =
     (case res of
        (Some err, w) \<Rightarrow> (Some err, s\<lparr>watcher := w\<rparr>)
      | (None, w) \<Rightarrow> (None, observedEvent flag (s\<lparr>watcher := w\<rparr>)))"

fun loop_case :: "event \<Rightarrow> 'w::len loop_state \<Rightarrow> error option \<times> 'w loop_state" where
  "loop_case OnDying s = (Some ErrDying, s)"
| "loop_case (OnUnit (Closed err)) s = (Some err, s)"
| "loop_case (OnUnit (Received r)) s = handled seenUnitChange s (unitChanged r (watcher s))"
| "loop_case (OnService (Closed err)) s = (Some err, s)"
| "loop_case (OnService (Received r)) s =
     handled seenServiceChange s (serviceChanged r (watcher s))"
| "loop_case (OnConfig (Closed err)) s = (Some err, s)"
| "loop_case (OnConfig (Received u)) s = handled seenConfigChange s (configChanged (watcher s))"
| "loop_case (OnAddresses (Closed err)) s = (Some err, s)"
| "loop_case (OnAddresses (Received u)) s =
     handled seenAddressesChange s (addressesChanged (watcher s))"
| "loop_case (OnLeaderSettings (Closed err)) s = (Some err, s)"
| "loop_case (OnLeaderSettings (Received u)) s =
     handled seenLeaderSettingsChange s (leaderSettingsChanged (watcher s))"
| "loop_case (OnRelations (Closed err)) s = (Some err, s)"
| "loop_case (OnRelations (Received keys)) s =
     handled seenRelationsChange s (relationsChanged keys (watcher s))"
| "loop_case (OnStorage (Closed err)) s = (Some err, s)"
| "loop_case (OnStorage (Received (keys, r))) s =
     handled seenStorageChange s (storageChanged keys r (watcher s))"
| "loop_case OnWaitMinion s =
     (case leadershipChanged False (watcher s) of
        (Some err, w) \<Rightarrow> (Some err, s\<lparr>watcher := w\<rparr>)
      | (None, w) \<Rightarrow> (None, s\<lparr>watcher := w, waitMinion := False, waitLeader := True\<rparr>))"
| "loop_case OnWaitLeader s =
     (case leadershipChanged True (watcher s) of
        (Some err, w) \<Rightarrow> (Some err, s\<lparr>watcher := w\<rparr>)
      | (None, w) \<Rightarrow> (None, s\<lparr>watcher := w, waitLeader := False, waitMinion := True\<rparr>))"
| "loop_case (OnStorageAttachment None) s = (None, s)"
| "loop_case (OnStorageAttachment (Some event)) s =
     (case storageAttachmentChanged event (watcher s) of
        (Some err, w) \<Rightarrow> (Some err, s\<lparr>watcher := w\<rparr>)
      | (None, w) \<Rightarrow> (None, s\<lparr>watcher := w\<rparr>))"
| "loop_case (OnRelationUnits change) s =
     (case relationUnitsChanged change (watcher s) of
        (Some err, w) \<Rightarrow> (Some err, s\<lparr>watcher := w\<rparr>)
      | (None, w) \<Rightarrow> (None, s\<lparr>watcher := w\<rparr>))"

text \<open>
  The cases on \<open>waitMinion\<close> and \<open>waitLeader\<close> can only be taken while the channel is
  set.
\<close>

fun enabled :: "event \<Rightarrow> 'w::len loop_state \<Rightarrow> bool" where
  "enabled OnWaitMinion s = waitMinion s"
| "enabled OnWaitLeader s = waitLeader s"
| "enabled e s = True"

text \<open>
  The \<open>for\<close> loop over a list of iterations, each the case that the \<open>select\<close> takes and
  whether a receiver waits on \<open>out\<close> when \<open>fire\<close> runs. The result is \<open>None\<close> when the list
  is no run of the loop (a case is taken that is not enabled); otherwise it is the error
  that the loop returned with, or \<open>None\<close> while the loop waits for the next event, and the
  state then.
\<close>

fun loop_for ::
  "(event \<times> bool) list \<Rightarrow> 'w::len loop_state \<Rightarrow> (error option \<times> 'w loop_state) option" where
  "loop_for [] s = Some (None, s)"
| "loop_for ((e, receiver) # es) s =
     (if \<not> enabled e s then None
      else case loop_case e s of
             (Some err, s') \<Rightarrow> Some (Some err, s')
           | (None, s') \<Rightarrow> loop_for es (fire receiver s'))"

text \<open>
  When \<open>loop\<close> returns, the deferred function stops the relation-units sub-watcher of
  every entry of \<open>w.relations\<close>.
\<close>

definition loop_deferred :: "'w::len RemoteStateWatcher \<Rightarrow> 'w RemoteStateWatcher" where
  "loop_deferred w =
     w\<lparr>running_relation_units :=
         Set.filter (\<lambda>(task, tag). case relations w tag of
                                      Some ruw \<Rightarrow> ruw_task ruw \<noteq> task
                                    | None \<Rightarrow> True)
           (running_relation_units w)\<rparr>"

definition loop ::
  "watch_reply \<Rightarrow> claim_case \<Rightarrow> (event \<times> bool) list \<Rightarrow> 'w::len RemoteStateWatcher
     \<Rightarrow> (error option \<times> 'w RemoteStateWatcher) option" where
  "loop r c es w =
     (case loop_watchers r w of
        Inl err \<Rightarrow> Some (Some err, w)
      | Inr s \<Rightarrow>
          (case loop_claimLeader c s of
             Inl err \<Rightarrow> Some (Some err, loop_deferred (watcher s))
           | Inr s' \<Rightarrow>
               (case loop_for es s' of
                  None \<Rightarrow> None
                | Some (None, s'') \<Rightarrow> Some (None, watcher s'')
                | Some (Some err, s'') \<Rightarrow> Some (Some err, loop_deferred (watcher s'')))))"

subsection \<open>Construction\<close>

text \<open>What the backing store answers to the two lookups of \<open>init\<close>.\<close>

record init_reply =
  st_Unit :: "error + string"
  unit_Service :: "error + string"

text \<open>
  The deferred function of \<open>init\<close> rewrites the named result \<open>err\<close> after the body has
  returned.
\<close>

definition init ::
  "init_reply \<Rightarrow> 'w::len RemoteStateWatcher \<Rightarrow> error option \<times> 'w RemoteStateWatcher" where
  "init r w =
     (let (err, w') =
            (case st_Unit r of
               Inl err \<Rightarrow> (Some err, w\<lparr>unit := None\<rparr>)
             | Inr u \<Rightarrow>
                 (case unit_Service r of
                    Inl err \<Rightarrow> (Some err, w\<lparr>unit := Some u, service := None\<rparr>)
                  | Inr sv \<Rightarrow> (None, w\<lparr>unit := Some u, service := Some sv\<rparr>)))
      in (if IsCodeNotFoundOrCodeUnauthorized err then Some ErrTerminateAgent else err, w'))"

text \<open>
  The struct that \<open>NewWatcher\<close> makes: two empty maps of sub-watchers, a Snapshot of zero
  values with two empty maps, no \<open>Members\<close> map, no task and no signal yet.
\<close>

definition NewWatcher_literal :: "'w::len RemoteStateWatcher" where
  "NewWatcher_literal =
     \<lparr>unit = None, service = None,
      relations = Map.empty,
      storageAttachementWatchers = Map.empty,
      current = \<lparr>UnitLife = LifeZero, ResolvedMode = ResolvedNone, CharmURL = None,
                  ForceCharmUpgrade = False, ConfigVersion = 0,
                  LeaderSettingsVersion = 0, Leader = False,
                  Relations = Map.empty, Storage = Map.empty\<rparr>,
      members = (\<lambda>a. Map.empty), next_addr = 0,
      running_relation_units = {}, running_storage_attachment = {},
      next_task = 0, out_sent = 0\<rparr>"

definition NewWatcher :: "init_reply \<Rightarrow> error + 'w::len RemoteStateWatcher" where
  "NewWatcher r =
     (let w = NewWatcher_literal
      in case init r w of
           (Some err, w') \<Rightarrow> Inl (Trace err)
         | (None, w') \<Rightarrow> Inr w')"

text \<open>
  The life of a watcher: \<open>NewWatcher\<close> starts the goroutine that runs \<open>loop\<close> only when
  \<open>init\<close> has returned no error. The signals of a life are those that its loop sent.
\<close>

definition watcher_life ::
  "init_reply \<Rightarrow> watch_reply \<Rightarrow> claim_case \<Rightarrow> (event \<times> bool) list
     \<Rightarrow> (error + error option \<times> 'w::len RemoteStateWatcher) option" where
  "watcher_life i r c es =
     (case NewWatcher i of
        Inl err \<Rightarrow> Some (Inl err)
      | Inr w \<Rightarrow> map_option Inr (loop r c es w))"

fun signals :: "(error + error option \<times> 'w::len RemoteStateWatcher) \<Rightarrow> nat" where
  "signals (Inl err) = 0"
| "signals (Inr (err, w)) = out_sent w"

section \<open>The bound on the txn-queue (patch of the transaction runner of mgo)\<close>

text \<open>
  The patch adds the options of a \<open>Runner\<close>, a check of the length of the txn-queue in
  the flusher and the state \<open>tpreparing\<close> in \<open>abortOrReload\<close>. \<open>Errorf\<close> keeps the format
  string and the arguments of \<open>fmt.Errorf\<close>, each with its verb.
\<close>

datatype fmt_val = V string | Q string | D nat

datatype txn_error = Errorf string "fmt_val list" | UpdateError string | NotAborted

record RunnerOptions =
  MaxTxnQueueLength :: int
  AssertionCleanupLength :: int

definition defaultMaxTxnQueueLength :: int where
  "defaultMaxTxnQueueLength = 1000"

definition defaultAssertionCleanupLength :: int where
  "defaultAssertionCleanupLength = 10"

definition DefaultRunnerOptions :: RunnerOptions where
  "DefaultRunnerOptions =
     \<lparr>MaxTxnQueueLength = defaultMaxTxnQueueLength,
      AssertionCleanupLength = defaultAssertionCleanupLength\<rparr>"

record Runner =
  tc :: string
  sc :: string
  lc :: "string option"
  opts :: RunnerOptions

definition NewRunner :: "string \<Rightarrow> Runner" where
  "NewRunner tc_Name =
     \<lparr>tc = tc_Name, sc = tc_Name @ ''.stash'', lc = None, opts = DefaultRunnerOptions\<rparr>"

definition SetOptions :: "RunnerOptions \<Rightarrow> Runner \<Rightarrow> Runner" where
  "SetOptions new_opts r = r\<lparr>opts := new_opts\<rparr>"

text \<open>
  Modelled from the spec: the types of the flusher and the database are not part of the
  patch. A document is named by its collection and id (\<open>dkey.C\<close>, \<open>dkey.Id\<close>); its
  txn-queue is "a per-document list of pending multi-document transaction tokens"; a
  transaction has an id, a nonce and a state, and its token is made of the first two.
\<close>

datatype tstate = tpreparing | tprepared | taborting | tapplying | taborted | tapplied

record docKey =
  dkey_C :: string
  dkey_Id :: string

record transaction =
  txn_Id :: string
  txn_Nonce :: string
  txn_State :: tstate

definition token :: "transaction \<Rightarrow> string" where
  "token t = txn_Id t @ ''_'' @ txn_Nonce t"

record database =
  txn_queue :: "docKey \<Rightarrow> string list"
  txn_state :: "string \<rightharpoonup> tstate"

text \<open>
  Modelled from the spec: the update that \<open>cquery.Apply\<close> performs is not part of the
  patch. The transaction adds its token to the txn-queue of the document, once, and
  \<open>info.Queue\<close> is the queue read back with the token in it: the tests of the patch
  fill a queue up to the bound, not beyond, and expect the next transaction to fail.
\<close>

definition Apply_push :: "transaction \<Rightarrow> docKey \<Rightarrow> database \<Rightarrow> string list \<times> database" where
  "Apply_push t dkey db =
     (let q = txn_queue db dkey;
          q' = (if token t \<in> set q then q else q @ [token t])
      in (q', db\<lparr>txn_queue := (txn_queue db)(dkey := q')\<rparr>))"

text \<open>
  Modelled from the spec: only the first lines of \<open>abortOrReload\<close> are part of the patch
  (in the state \<open>tprepared\<close> or \<open>tpreparing\<close> the transaction is set to \<open>taborting\<close> by an
  update of the collection of transactions, whose error is \<open>update_err\<close>). For the rest
  the transaction "is aborted": after the update (the patch: "abortOrReload will pull the
  tokens from all of the docs that we've touched so far") its token is pulled from the
  queue of every document touched and its state is \<open>taborted\<close>. When the update fails its
  error is returned; in another state nothing is aborted.
\<close>

definition pull_token :: "string \<Rightarrow> docKey list \<Rightarrow> (docKey \<Rightarrow> string list) \<Rightarrow> (docKey \<Rightarrow> string list)" where
  "pull_token tok touched queues =
     fold (\<lambda>dkey queues. queues(dkey := filter (\<lambda>x. x \<noteq> tok) (queues dkey))) touched queues"

definition abortOrReload ::
  "txn_error option \<Rightarrow> transaction \<Rightarrow> docKey list \<Rightarrow> database \<Rightarrow> txn_error option \<times> database" where
  "abortOrReload update_err t touched db =
     (if txn_State t = tprepared \<or> txn_State t = tpreparing then
        (case update_err of
           None \<Rightarrow>
             (None, db\<lparr>txn_queue := pull_token (token t) touched (txn_queue db),
                        txn_state := (txn_state db)(txn_Id t \<mapsto> taborted)\<rparr>)
         | Some err \<Rightarrow> (Some err, db))
      else (Some NotAborted, db))"

text \<open>
  Modelled from the spec: the loop \<open>NextDoc\<close> of the flusher over the documents of the
  transaction is not part of the patch, which adds the check after a successful \<open>Apply\<close>;
  the check is the one of the patch. \<open>touched\<close> are the documents that already hold the
  token. The bound is an \<open>int\<close> of Go that is only compared with a length.
\<close>

fun prepare ::
  "RunnerOptions \<Rightarrow> txn_error option \<Rightarrow> transaction \<Rightarrow> docKey list \<Rightarrow> docKey list \<Rightarrow> database
     \<Rightarrow> txn_error option \<times> database" where
  "prepare f_opts update_err t touched [] db = (None, db)"
| "prepare f_opts update_err t touched (dkey # dkeys) db =
     (let (info_Queue, db1) = Apply_push t dkey db
      in if MaxTxnQueueLength f_opts > 0
            \<and> int (length info_Queue) > MaxTxnQueueLength f_opts
         then (case abortOrReload update_err t (dkey # touched) db1 of
                 (None, db2) \<Rightarrow>
                   (Some (Errorf ''txn-queue for %v in %q has too many transactions (%d)''
                            [V (dkey_Id dkey), Q (dkey_C dkey), D (length info_Queue)]), db2)
               | (Some err, db2) \<Rightarrow> (Some err, db2))
         else prepare f_opts update_err t (dkey # touched) dkeys db1)"

section \<open>Notions used to state the properties\<close>

text \<open>The source whose first change sets a flag; the events that count for \<open>ConfigVersion\<close>.\<close>

fun source :: "event \<Rightarrow> flag option" where
  "source (OnUnit (Received r)) = Some seenUnitChange"
| "source (OnService (Received r)) = Some seenServiceChange"
| "source (OnConfig (Received u)) = Some seenConfigChange"
| "source (OnAddresses (Received u)) = Some seenAddressesChange"
| "source (OnLeaderSettings (Received u)) = Some seenLeaderSettingsChange"
| "source (OnRelations (Received keys)) = Some seenRelationsChange"
| "source (OnStorage (Received keys)) = Some seenStorageChange"
| "source e = None"

definition all_flags :: "flag list" where
  "all_flags =
     [seenUnitChange, seenServiceChange, seenConfigChange, seenRelationsChange,
      seenAddressesChange, seenStorageChange, seenLeaderSettingsChange, seenLeadershipChange]"

fun counts_config :: "event \<Rightarrow> bool" where
  "counts_config (OnConfig (Received u)) = True"
| "counts_config (OnAddresses (Received u)) = True"
| "counts_config e = False"

definition config_events :: "(event \<times> bool) list \<Rightarrow> nat" where
  "config_events es = length (filter (\<lambda>(e, receiver). counts_config e) es)"

abbreviation cv :: "'w::len loop_state \<Rightarrow> 'w word" where
  "cv s \<equiv> ConfigVersion (Snapshot_read (watcher s))"

text \<open>
  What a caller reads in \<open>snapshot.Relations[id].Members[unit]\<close> when the store of the
  \<open>Members\<close> maps is \<open>store\<close>.
\<close>

definition read_Members ::
  "(addr \<Rightarrow> (string \<rightharpoonup> 64 word)) \<Rightarrow> 'w::len Snapshot \<Rightarrow> int \<Rightarrow> string \<Rightarrow> 64 word option" where
  "read_Members store snapshot rel_Id unit_name =
     (case Relations snapshot rel_Id of
        None \<Rightarrow> None
      | Some relationSnapshot \<Rightarrow>
          (case Members relationSnapshot of
             None \<Rightarrow> None
           | Some a \<Rightarrow> store a unit_name))"

text \<open>
  Every running storage-attachment task is the one registered for its tag, and was
  numbered before \<open>next_task\<close>.
\<close>

definition storage_tasks_registered :: "'w::len RemoteStateWatcher \<Rightarrow> bool" where
  "storage_tasks_registered w =
     (\<forall>(task, tag) \<in> running_storage_attachment w.
        task < next_task w \<and> storageAttachementWatchers w tag = Some task)"

text \<open>Replies and events of the examples.\<close>

definition watchers_started :: watch_reply where
  "watchers_started =
     \<lparr>unit_Watch = None, service_Watch = None, unit_WatchConfigSettings = None,
      service_WatchRelations = None, unit_WatchAddresses = None, unit_WatchStorage = None,
      service_WatchLeadershipSettings = None\<rparr>"

definition found :: init_reply where
  "found = \<lparr>st_Unit = Inr ''unit-u-0'', unit_Service = Inr ''service-u''\<rparr>"

definition not_found :: init_reply where
  "not_found = \<lparr>st_Unit = Inl (NotFound ''unit u/0''), unit_Service = Inr ''service-u''\<rparr>"

definition w_new :: "64 RemoteStateWatcher" where
  "w_new = snd (init found NewWatcher_literal)"

text \<open>The \<open>ConfigVersion\<close> that \<open>Snapshot\<close> reads when \<open>loop\<close> has run, as a signed number.\<close>

definition ConfigVersion_after ::
  "(error option \<times> 'w::len RemoteStateWatcher) option \<Rightarrow> int option" where
  "ConfigVersion_after res = map_option (\<lambda>(err, w). sint (ConfigVersion (Snapshot_read w))) res"

text \<open>
  The locals of the loop of \<open>w_new\<close> when the seven watchers are started and the claim of
  leadership was answered with "not leader".
\<close>

definition s_claimed :: "64 loop_state" where
  "s_claimed =
     \<lparr>watcher = w_new, requiredEvents = 8, eventsObserved = 1,
      seen = (\<lambda>flag. False)(seenLeadershipChange := True),
      waitLeader = True, waitMinion = False\<rparr>"

text \<open>
  Whether the counter \<open>eventsObserved\<close> is the number of the flags that are set, and the
  invariant of the loop: eight events are required and the counter is right.
\<close>

definition counted :: "'w::len loop_state \<Rightarrow> bool" where
  "counted s = (eventsObserved s = length (filter (seen s) all_flags))"

definition gate_inv :: "'w::len loop_state \<Rightarrow> bool" where
  "gate_inv s = (requiredEvents s = 8 \<and> counted s)"

text \<open>Two states of the loop with the same counters and flags.\<close>

definition same_locals :: "'w::len loop_state \<Rightarrow> 'w loop_state \<Rightarrow> bool" where
  "same_locals s s' =
     (requiredEvents s' = requiredEvents s \<and> eventsObserved s' = eventsObserved s
      \<and> seen s' = seen s)"

text \<open>
  The first changes of the seven watchers, with no relation and no storage yet, a receiver
  waiting on \<open>out\<close> all along; and a run with two changes that count for \<open>ConfigVersion\<close>.
\<close>

definition es_initial :: "(event \<times> bool) list" where
  "es_initial =
     [(OnUnit (Received \<lparr>unit_Refresh = None, unit_Resolved = Inr ResolvedNone,
                          unit_Life = Alive\<rparr>), True),
      (OnService (Received \<lparr>service_Refresh = None,
                             service_CharmURL = Inr (Some ''cs:trusty/mediawiki-3'', False)\<rparr>), True),
      (OnConfig (Received ()), True),
      (OnAddresses (Received ()), True),
      (OnRelations (Received []), True),
      (OnStorage (Received ([], \<lparr>st_StorageAttachmentLife = Inr [],
                                  newStorageAttachmentWatcher = (\<lambda>i. None),
                                  watcher_Stop = (\<lambda>i. None)\<rparr>)), True),
      (OnLeaderSettings (Received ()), True)]"

definition es_config :: "(event \<times> bool) list" where
  "es_config =
     [(OnConfig (Received ()), True),
      (OnRelationUnits \<lparr>relationId = 3, Changed = [], Departed = []\<rparr>, True),
      (OnAddresses (Received ()), False)]"

definition s_started :: "64 loop_state" where
  "s_started =
     \<lparr>watcher = w_new, requiredEvents = 8, eventsObserved = 0, seen = (\<lambda>flag. False),
      waitLeader = False, waitMinion = False\<rparr>"

text \<open>
  A relation that is new, then dying, then gone, and the watcher that has seen it once;
  the relation gone with a sub-watcher whose \<open>Stop\<close> fails, the relation found with
  another id, and the relation new when its units cannot be watched.
\<close>

definition reply_new :: relation_reply where
  "reply_new = \<lparr>st_Relation = Inr (0, Alive), ruw_Stop = None, st_WatchRelationUnits = None,
                 in_Changes = InChange [(''svc2/0'', 7)]\<rparr>"

definition reply_dying :: relation_reply where
  "reply_dying = \<lparr>st_Relation = Inr (0, Dying), ruw_Stop = None, st_WatchRelationUnits = None,
                   in_Changes = InDying\<rparr>"

definition reply_gone :: relation_reply where
  "reply_gone = \<lparr>st_Relation = Inl (NotFound ''relation svc:db svc2:db''), ruw_Stop = None,
                  st_WatchRelationUnits = None, in_Changes = InDying\<rparr>"

definition reply_stop_fails :: relation_reply where
  "reply_stop_fails = reply_gone\<lparr>ruw_Stop := Some (Failure ''cannot stop the watcher'')\<rparr>"

definition reply_renumbered :: relation_reply where
  "reply_renumbered = reply_dying\<lparr>st_Relation := Inr (5, Dying)\<rparr>"

definition reply_unwatched :: relation_reply where
  "reply_unwatched =
     reply_new\<lparr>st_WatchRelationUnits := Some (Failure ''cannot watch relation units'')\<rparr>"

definition w_related :: "64 RemoteStateWatcher" where
  "w_related = snd (relationsChanged_key ''svc:db svc2:db'' reply_new w_new)"



text \<open>
  A queue with a token in it, as the check of the patch reads it; the queues when the
  documents in \<open>touched\<close> were given the token \<open>tok\<close>, and when it was pulled from
  them; the options of a runner whose bound was set; a document of the collection
  \<open>accounts\<close> with three tokens in its queue, and a transaction in preparation.
\<close>

definition with_token :: "string \<Rightarrow> string list \<Rightarrow> string list" where
  "with_token tok q = (if tok \<in> set q then q else q @ [tok])"

definition pushed ::
  "string \<Rightarrow> docKey list \<Rightarrow> (docKey \<Rightarrow> string list) \<Rightarrow> (docKey \<Rightarrow> string list)" where
  "pushed tok touched queues =
     (\<lambda>d. if d \<in> set touched then with_token tok (queues d) else queues d)"

definition pulled ::
  "string \<Rightarrow> docKey list \<Rightarrow> (docKey \<Rightarrow> string list) \<Rightarrow> (docKey \<Rightarrow> string list)" where
  "pulled tok touched queues =
     (\<lambda>d. if d \<in> set touched then filter (\<lambda>x. x \<noteq> tok) (queues d) else queues d)"

definition bound_at :: "int \<Rightarrow> RunnerOptions" where
  "bound_at n = opts (SetOptions (DefaultRunnerOptions\<lparr>MaxTxnQueueLength := n\<rparr>)
                      (NewRunner ''txns''))"

definition account :: docKey where
  "account = \<lparr>dkey_C = ''accounts'', dkey_Id = ''0''\<rparr>"

definition db0 :: database where
  "db0 = \<lparr>txn_queue = (\<lambda>d. if d = account then [''a_1'', ''b_1'', ''c_1''] else []),
          txn_state = [''t'' \<mapsto> tpreparing]\<rparr>"

definition t0 :: transaction where
  "t0 = \<lparr>txn_Id = ''t'', txn_Nonce = ''1'', txn_State = tpreparing\<rparr>"

text \<open>
  What the store of the \<open>Members\<close> maps is after a caller's assignment
  \<open>snapshot.Relations[id].Members[unit] = version\<close> (nothing is modelled of an assignment
  to a nil map or to a missing entry); and a change of the units of relation 0.
\<close>

definition write_Members ::
  "'w::len Snapshot \<Rightarrow> int \<Rightarrow> string \<Rightarrow> 64 word \<Rightarrow> (addr \<Rightarrow> (string \<rightharpoonup> 64 word))
     \<Rightarrow> (addr \<Rightarrow> (string \<rightharpoonup> 64 word))" where
  "write_Members snapshot rel_Id unit_name version store =
     (case Relations snapshot rel_Id of
        None \<Rightarrow> store
      | Some relationSnapshot \<Rightarrow>
          (case Members relationSnapshot of
             None \<Rightarrow> store
           | Some a \<Rightarrow> store(a := (store a)(unit_name \<mapsto> version))))"

definition units_change :: relationUnitsChange where
  "units_change =
     \<lparr>relationId = 0, Changed = [(''svc2/1'', 3)], Departed = [''svc2/0'']\<rparr>"

text \<open>A watcher, and a state of the loop, with another \<open>ResolvedMode\<close> in the Snapshot.\<close>

definition with_ResolvedMode :: "ResolvedMode \<Rightarrow> 'w::len RemoteStateWatcher \<Rightarrow> 'w RemoteStateWatcher" where
  "with_ResolvedMode m w = w\<lparr>current := (current w)\<lparr>ResolvedMode := m\<rparr>\<rparr>"

definition resolved_as :: "ResolvedMode \<Rightarrow> 'w::len loop_state \<Rightarrow> 'w loop_state" where
  "resolved_as m s = s\<lparr>watcher := with_ResolvedMode m (watcher s)\<rparr>"

section \<open>Properties of the remote state watcher\<close>

subsection \<open>Rules to run the loop on given events\<close>

lemma handled_None: "handled f s (None, w) = (None, observedEvent f (s\<lparr>watcher := w\<rparr>))"
  by (simp add: handled_def)

lemma handled_Some: "handled f s (Some e, w) = (Some e, s\<lparr>watcher := w\<rparr>)"
  by (simp add: handled_def)

lemma observedEvent_new:
  "\<not> seen s f \<Longrightarrow>
     observedEvent f s = s\<lparr>seen := (seen s)(f := True), eventsObserved := eventsObserved s + 1\<rparr>"
  by (simp add: observedEvent_def)

lemma observedEvent_old: "seen s f \<Longrightarrow> observedEvent f s = s"
  by (simp add: observedEvent_def)

lemma fire_closed: "eventsObserved s \<noteq> requiredEvents s \<Longrightarrow> fire rcv s = s"
  by (simp add: fire_def)

lemma fire_sent:
  "eventsObserved s = requiredEvents s \<Longrightarrow>
     fire True s = s\<lparr>watcher := (watcher s)\<lparr>out_sent := out_sent (watcher s) + 1\<rparr>\<rparr>"
  by (simp add: fire_def)

lemma fire_dropped: "fire False s = s"
  by (simp add: fire_def)

lemma loop_for_Cons:
  "loop_for ((e, rcv) # es) s =
     (if \<not> enabled e s then None
      else if fst (loop_case e s) = None then loop_for es (fire rcv (snd (loop_case e s)))
      else Some (loop_case e s))"
  by (cases "loop_case e s") (auto split: option.splits)

lemmas run_simps = loop_for_Cons handled_None handled_Some observedEvent_new observedEvent_old
  fire_closed fire_sent fire_dropped

lemmas w_new_simps = w_new_def init_def found_def NewWatcher_literal_def

subsection \<open>ClearResolvedMode\<close>

lemma relationsChanged_key_resolved:
  "relationsChanged_key key r (with_ResolvedMode m w) =
     (fst (relationsChanged_key key r w), with_ResolvedMode m (snd (relationsChanged_key key r w)))"
  by (simp add: relationsChanged_key_def with_ResolvedMode_def Let_def
      split: sum.splits option.splits in_select.splits prod.splits)

lemma relationsChanged_resolved:
  "relationsChanged keys (with_ResolvedMode m w) =
     (fst (relationsChanged keys w), with_ResolvedMode m (snd (relationsChanged keys w)))"
proof (induction keys arbitrary: w)
  case Nil
  then show ?case by simp
next
  case (Cons k keys)
  obtain key r where k: "k = (key, r)" by (cases k)
  obtain err w' where h: "relationsChanged_key key r w = (err, w')"
    by (cases "relationsChanged_key key r w")
  then have "relationsChanged_key key r (with_ResolvedMode m w) = (err, with_ResolvedMode m w')"
    by (simp add: relationsChanged_key_resolved)
  then show ?case using Cons.IH [of w'] h k by (cases err) simp_all
qed

lemma storageChanged_result_resolved:
  "storageChanged_result r i res tag (with_ResolvedMode m w) =
     (fst (storageChanged_result r i res tag w),
      with_ResolvedMode m (snd (storageChanged_result r i res tag w)))"
  by (simp add: storageChanged_result_def with_ResolvedMode_def Let_def
      startStorageAttachmentWatcher_def stopStorageAttachmentWatcher_def
      split: option.splits prod.splits)

lemma storageChanged_results_resolved:
  "storageChanged_results r i results tags (with_ResolvedMode m w) =
     (fst (storageChanged_results r i results tags w),
      with_ResolvedMode m (snd (storageChanged_results r i results tags w)))"
proof (induction r i results tags w rule: storageChanged_results.induct)
  case (3 r i result results tag tags w)
  obtain err w' where h: "storageChanged_result r i result tag w = (err, w')"
    by (cases "storageChanged_result r i result tag w")
  then have "storageChanged_result r i result tag (with_ResolvedMode m w)
               = (err, with_ResolvedMode m w')"
    by (simp add: storageChanged_result_resolved)
  then show ?case using 3 h by (cases err) simp_all
qed simp_all

lemma storageChanged_resolved:
  "storageChanged keys r (with_ResolvedMode m w) =
     (fst (storageChanged keys r w), with_ResolvedMode m (snd (storageChanged keys r w)))"
  by (simp add: storageChanged_def storageChanged_results_resolved split: sum.splits)

lemma handled_resolved:
  assumes "h (with_ResolvedMode m (watcher s)) = (fst (h (watcher s)), with_ResolvedMode m' (snd (h (watcher s))))"
  shows "handled f (resolved_as m s) (h (watcher (resolved_as m s))) =
           (fst (handled f s (h (watcher s))), resolved_as m' (snd (handled f s (h (watcher s)))))"
proof -
  obtain err w' where h: "h (watcher s) = (err, w')" by (cases "h (watcher s)")
  then show ?thesis using assms
    by (cases err) (simp_all add: handled_def resolved_as_def observedEvent_def)
qed

lemma simple_resolved:
  "configChanged (with_ResolvedMode m w) =
     (fst (configChanged w), with_ResolvedMode m (snd (configChanged w)))"
  "addressesChanged (with_ResolvedMode m w) =
     (fst (addressesChanged w), with_ResolvedMode m (snd (addressesChanged w)))"
  "leaderSettingsChanged (with_ResolvedMode m w) =
     (fst (leaderSettingsChanged w), with_ResolvedMode m (snd (leaderSettingsChanged w)))"
  "leadershipChanged b (with_ResolvedMode m w) =
     (fst (leadershipChanged b w), with_ResolvedMode m (snd (leadershipChanged b w)))"
  "serviceChanged sr (with_ResolvedMode m w) =
     (fst (serviceChanged sr w), with_ResolvedMode m (snd (serviceChanged sr w)))"
  "storageAttachmentChanged ev (with_ResolvedMode m w) =
     (fst (storageAttachmentChanged ev w), with_ResolvedMode m (snd (storageAttachmentChanged ev w)))"
  "relationUnitsChanged ch (with_ResolvedMode m w) =
     (fst (relationUnitsChanged ch w), with_ResolvedMode m (snd (relationUnitsChanged ch w)))"
  by (simp_all add: configChanged_def addressesChanged_def leaderSettingsChanged_def
      leadershipChanged_def serviceChanged_def storageAttachmentChanged_def
      relationUnitsChanged_def with_ResolvedMode_def
      split: option.splits sum.splits prod.splits)

lemma unitChanged_resolved:
  "\<exists>m'. unitChanged ur (with_ResolvedMode m w) =
     (fst (unitChanged ur w), with_ResolvedMode m' (snd (unitChanged ur w)))"
proof (cases "fst (unitChanged ur w)")
  case None
  then obtain resolved where "unit_Refresh ur = None" "unit_Resolved ur = Inr resolved"
    by (auto simp: unitChanged_def split: option.splits sum.splits)
  then have "unitChanged ur (with_ResolvedMode m w) =
     (fst (unitChanged ur w), with_ResolvedMode resolved (snd (unitChanged ur w)))"
    by (simp add: unitChanged_def with_ResolvedMode_def)
  then show ?thesis by blast
next
  case (Some e)
  then have "unitChanged ur (with_ResolvedMode m w) =
     (fst (unitChanged ur w), with_ResolvedMode m (snd (unitChanged ur w)))"
    by (auto simp: unitChanged_def split: option.splits sum.splits)
  then show ?thesis by blast
qed

lemma resolved_as_watcher: "watcher (resolved_as m s) = with_ResolvedMode m (watcher s)"
  by (simp add: resolved_as_def)

lemma loop_case_resolved:
  "\<exists>m'. loop_case e (resolved_as m s) =
     (fst (loop_case e s), resolved_as m' (snd (loop_case e s)))"
proof (cases e)
  case OnDying
  then show ?thesis by auto
next
  case (OnUnit x)
  show ?thesis
  proof (cases x)
    case (Closed err)
    then show ?thesis using OnUnit by auto
  next
    case (Received ur)
    from unitChanged_resolved [of ur m "watcher s"] obtain m' where
      "unitChanged ur (with_ResolvedMode m (watcher s)) =
         (fst (unitChanged ur (watcher s)), with_ResolvedMode m' (snd (unitChanged ur (watcher s))))"
      by blast
    from handled_resolved [of "unitChanged ur", OF this]
    show ?thesis using OnUnit Received by auto
  qed
next
  case (OnService x)
  then show ?thesis
    using handled_resolved [of "serviceChanged r" m s m for r, OF simple_resolved(5)]
    by (cases x) auto
next
  case (OnConfig x)
  then show ?thesis
    using handled_resolved [of configChanged m s m, OF simple_resolved(1)]
    by (cases x) auto
next
  case (OnAddresses x)
  then show ?thesis
    using handled_resolved [of addressesChanged m s m, OF simple_resolved(2)]
    by (cases x) auto
next
  case (OnLeaderSettings x)
  then show ?thesis
    using handled_resolved [of leaderSettingsChanged m s m, OF simple_resolved(3)]
    by (cases x) auto
next
  case (OnRelations x)
  then show ?thesis
    using handled_resolved [of "relationsChanged keys" m s m for keys, OF relationsChanged_resolved]
    by (cases x) auto
next
  case (OnStorage x)
  show ?thesis
  proof (cases x)
    case (Closed err)
    then show ?thesis using OnStorage by auto
  next
    case (Received p)
    obtain keys r where p: "p = (keys, r)" by (cases p)
    from handled_resolved [of "storageChanged keys r" m s m, OF storageChanged_resolved]
    show ?thesis using OnStorage Received p by auto
  qed
next
  case OnWaitMinion
  then have "loop_case e (resolved_as m s) =
      (fst (loop_case e s), resolved_as m (snd (loop_case e s)))"
    by (simp add: resolved_as_def leadershipChanged_def with_ResolvedMode_def)
  then show ?thesis by blast
next
  case OnWaitLeader
  then have "loop_case e (resolved_as m s) =
      (fst (loop_case e s), resolved_as m (snd (loop_case e s)))"
    by (simp add: resolved_as_def leadershipChanged_def with_ResolvedMode_def)
  then show ?thesis by blast
next
  case (OnStorageAttachment x)
  then have "loop_case e (resolved_as m s) =
      (fst (loop_case e s), resolved_as m (snd (loop_case e s)))"
    by (cases x) (simp_all add: resolved_as_def storageAttachmentChanged_def with_ResolvedMode_def)
  then show ?thesis by blast
next
  case (OnRelationUnits ch)
  obtain err w' where h: "relationUnitsChanged ch (watcher s) = (err, w')"
    by (cases "relationUnitsChanged ch (watcher s)")
  then have "relationUnitsChanged ch (with_ResolvedMode m (watcher s)) = (err, with_ResolvedMode m w')"
    by (simp add: simple_resolved(7))
  then have "loop_case e (resolved_as m s) = (fst (loop_case e s), resolved_as m (snd (loop_case e s)))"
    using OnRelationUnits h by (cases err) (simp_all add: resolved_as_def)
  then show ?thesis by blast
qed

lemma fire_resolved: "fire rcv (resolved_as m s) = resolved_as m (fire rcv s)"
  by (simp add: fire_def resolved_as_def with_ResolvedMode_def)

lemma enabled_resolved: "enabled e (resolved_as m s) = enabled e s"
  by (cases e) (simp_all add: resolved_as_def)

lemma loop_for_resolved:
  "\<exists>m'. loop_for es (resolved_as m s) =
     map_option (\<lambda>(err, s'). (err, resolved_as m' s')) (loop_for es s)"
proof (induction es arbitrary: m s)
  case Nil
  have "loop_for [] (resolved_as m s) =
     map_option (\<lambda>(err, s'). (err, resolved_as m s')) (loop_for [] s)" by simp
  then show ?case by blast
next
  case (Cons x es)
  obtain e rcv where x: "x = (e, rcv)" by (cases x)
  obtain err1 s1 where h: "loop_case e s = (err1, s1)" by (cases "loop_case e s")
  from loop_case_resolved [of e m s] obtain m1 where
    h': "loop_case e (resolved_as m s) = (err1, resolved_as m1 s1)" using h by auto
  show ?case
  proof (cases "enabled e s")
    case False
    then have "loop_for (x # es) (resolved_as m s) =
       map_option (\<lambda>(err, s'). (err, resolved_as m s')) (loop_for (x # es) s)"
      using x by (simp add: enabled_resolved)
    then show ?thesis by blast
  next
    case True
    show ?thesis
    proof (cases err1)
      case None
      from Cons.IH [of m1 "fire rcv s1"] obtain m' where
        "loop_for es (resolved_as m1 (fire rcv s1)) =
           map_option (\<lambda>(err, s'). (err, resolved_as m' s')) (loop_for es (fire rcv s1))"
        by blast
      then have "loop_for (x # es) (resolved_as m s) =
         map_option (\<lambda>(err, s'). (err, resolved_as m' s')) (loop_for (x # es) s)"
        using x h h' True None by (simp add: enabled_resolved fire_resolved)
      then show ?thesis by blast
    next
      case (Some a)
      then have "loop_for (x # es) (resolved_as m s) =
         map_option (\<lambda>(err, s'). (err, resolved_as m1 s')) (loop_for (x # es) s)"
        using x h h' True by (simp add: enabled_resolved)
      then show ?thesis by blast
    qed
  qed
qed


text \<open>
  C8: \<open>ClearResolvedMode\<close> sets the \<open>ResolvedMode\<close> of the Snapshot to \<open>ResolvedNone\<close> and
  changes nothing else: every other field of the Snapshot, every other field of the
  watcher and the \<open>Members\<close> maps are as before, and the number of signals sent on \<open>out\<close>
  is the same. Nor does it change what the loop sends later: on the same events the loop
  returns the same error, if any, and has sent the same number of signals, whether
  \<open>ClearResolvedMode\<close> was called before or not.
\<close>

theorem ClearResolvedMode_frame:
  "ResolvedMode (Snapshot_read (ClearResolvedMode w)) = ResolvedNone
   \<and> Snapshot_read (ClearResolvedMode w) = (Snapshot_read w)\<lparr>ResolvedMode := ResolvedNone\<rparr>
   \<and> ClearResolvedMode w = w\<lparr>current := (current w)\<lparr>ResolvedMode := ResolvedNone\<rparr>\<rparr>
   \<and> members (ClearResolvedMode w) = members w
   \<and> out_sent (ClearResolvedMode w) = out_sent w
   \<and> map_option (\<lambda>(err, s'). (err, out_sent (watcher s')))
         (loop_for es (s\<lparr>watcher := ClearResolvedMode (watcher s)\<rparr>))
       = map_option (\<lambda>(err, s'). (err, out_sent (watcher s'))) (loop_for es s)"
proof -
  have "s\<lparr>watcher := ClearResolvedMode (watcher s)\<rparr> = resolved_as ResolvedNone s"
    by (simp add: resolved_as_def with_ResolvedMode_def ClearResolvedMode_def)
  moreover obtain m where
    "loop_for es (resolved_as ResolvedNone s) =
       map_option (\<lambda>(err, s'). (err, resolved_as m s')) (loop_for es s)"
    using loop_for_resolved by blast
  moreover have "out_sent (watcher (resolved_as m s')) = out_sent (watcher s')" for s'
    by (simp add: resolved_as_def with_ResolvedMode_def)
  ultimately have "map_option (\<lambda>(err, s'). (err, out_sent (watcher s')))
         (loop_for es (s\<lparr>watcher := ClearResolvedMode (watcher s)\<rparr>))
       = map_option (\<lambda>(err, s'). (err, out_sent (watcher s'))) (loop_for es s)"
    by (cases "loop_for es s") auto
  then show ?thesis
    by (simp add: ClearResolvedMode_def Snapshot_read_def)
qed

theorem ClearResolvedMode_frame_witness:
  "ResolvedMode (Snapshot_read (ClearResolvedMode w_new)) = ResolvedNone
   \<and> map_option (\<lambda>(err, s'). (err, out_sent (watcher s'))) (loop_for es_initial s_claimed)
       = Some (None, 1)
   \<and> map_option (\<lambda>(err, s'). (err, out_sent (watcher s')))
         (loop_for es_initial (s_claimed\<lparr>watcher := ClearResolvedMode (watcher s_claimed)\<rparr>))
       = Some (None, 1)"
proof -
  have "map_option (\<lambda>(err, s). (err, out_sent (watcher s))) (loop_for es_initial s_claimed)
          = Some (None, 1)"
    by (simp add: run_simps w_new_simps es_initial_def s_claimed_def configChanged_def
        addressesChanged_def unitChanged_def serviceChanged_def leaderSettingsChanged_def
        storageChanged_def del: loop_for.simps(2))
  then show ?thesis
    using ClearResolvedMode_frame [of w_new es_initial s_claimed]
    by (simp add: Snapshot_read_def)
qed

subsection \<open>Changes of the units of an unknown relation\<close>

text \<open>
  C10: when the \<open>relationId\<close> of a relation-units change is no key of \<open>Relations\<close>,
  \<open>relationUnitsChanged\<close> returns nil and leaves the whole watcher, the Snapshot and the
  \<open>Members\<close> maps with it, as it was.
\<close>

theorem relationUnitsChanged_unknown:
  assumes "Relations (current w) (relationId change) = None"
  shows "relationUnitsChanged change w = (None, w)"
  using assms by (simp add: relationUnitsChanged_def)

theorem relationUnitsChanged_unknown_witness:
  "Relations (current w_new) 3 = None
   \<and> relationUnitsChanged \<lparr>relationId = 3, Changed = [(''u/1'', 5)], Departed = [''u/2'']\<rparr> w_new
       = (None, w_new)"
  using relationUnitsChanged_unknown
          [of w_new "\<lparr>relationId = 3, Changed = [(''u/1'', 5)], Departed = [''u/2'']\<rparr>"]
  by (simp add: w_new_def init_def found_def NewWatcher_literal_def)

subsection \<open>Construction\<close>

text \<open>
  C7: when the lookup of the unit, or after it the lookup of its service, fails with an
  error that is not-found or unauthorized, \<open>init\<close> returns \<open>ErrTerminateAgent\<close> in its
  place; \<open>NewWatcher\<close> returns this error (under \<open>errors.Trace\<close>, which records where it
  passed) and no watcher; the loop is never started, so that no signal is sent. Any other
  error of a lookup is returned as it is.
\<close>

theorem init_terminate_agent:
  assumes "st_Unit i = Inl err \<or> (\<exists>u. st_Unit i = Inr u \<and> unit_Service i = Inl err)"
  shows "(IsCodeNotFoundOrCodeUnauthorized (Some err) \<longrightarrow>
            fst (init i w) = Some ErrTerminateAgent
          \<and> (NewWatcher i :: error + 'w::len RemoteStateWatcher) = Inl (Trace ErrTerminateAgent)
          \<and> (watcher_life i r c es :: (error + error option \<times> 'w RemoteStateWatcher) option)
              = Some (Inl (Trace ErrTerminateAgent))
          \<and> signals (Inl (Trace ErrTerminateAgent) :: error + error option \<times> 'w RemoteStateWatcher)
              = 0)
       \<and> (\<not> IsCodeNotFoundOrCodeUnauthorized (Some err) \<longrightarrow>
            fst (init i w) = Some err
          \<and> (NewWatcher i :: error + 'w RemoteStateWatcher) = Inl (Trace err))"
  using assms
  by (auto simp: init_def NewWatcher_def watcher_life_def Let_def split: sum.splits)

theorem init_terminate_agent_witness:
  "st_Unit not_found = Inl (NotFound ''unit u/0'')
   \<and> IsCodeNotFoundOrCodeUnauthorized (Some (NotFound ''unit u/0''))
   \<and> fst (init not_found w_new) = Some ErrTerminateAgent
   \<and> (NewWatcher not_found :: error + 64 RemoteStateWatcher) = Inl (Trace ErrTerminateAgent)
   \<and> (watcher_life not_found watchers_started (ClaimReady True) [(OnConfig (Received ()), True)]
        :: (error + error option \<times> 64 RemoteStateWatcher) option)
       = Some (Inl (Trace ErrTerminateAgent))"
  using init_terminate_agent
          [of not_found "NotFound ''unit u/0''" w_new watchers_started "ClaimReady True"
              "[(OnConfig (Received ()), True)]"]
  by (simp add: not_found_def IsCodeNotFoundOrCodeUnauthorized_def)

subsection \<open>The claim of leadership at the start of the loop\<close>

lemma loop_watchers_watcher: "loop_watchers r w = Inr s \<Longrightarrow> watcher s = w"
  by (auto simp: loop_watchers_def required_def Let_def split: option.splits)

text \<open>
  C9, as the code has it: the \<open>select\<close> that waits for \<open>claimLeader.Ready()\<close> has a case
  for the dying channel. When the tomb is killed and the claim is not ready, the \<open>select\<close>
  takes that case and \<open>loop\<close> returns \<open>ErrDying\<close> without waiting for the claim; when
  neither is ready it blocks; when only the claim is ready the loop goes on with its
  result; when both are ready the runtime picks one of the two.
\<close>

theorem claimLeader_observes_dying:
  "claimLeader_select True None pick = Some ClaimDying
   \<and> claimLeader_select False None pick = None
   \<and> claimLeader_select False (Some isLeader) pick = Some (ClaimReady isLeader)
   \<and> claimLeader_select True (Some isLeader) pick =
       Some (if pick then ClaimDying else ClaimReady isLeader)
   \<and> loop_claimLeader ClaimDying s = Inl ErrDying
   \<and> (loop_watchers r w = Inr s \<longrightarrow>
        loop r ClaimDying es w = Some (Some ErrDying, loop_deferred w))"
  by (auto simp: loop_def loop_claimLeader_def dest: loop_watchers_watcher)

theorem claimLeader_observes_dying_witness:
  "loop_watchers watchers_started w_new
     = Inr \<lparr>watcher = w_new, requiredEvents = 8, eventsObserved = 0, seen = (\<lambda>flag. False),
            waitLeader = False, waitMinion = False\<rparr>
   \<and> loop watchers_started ClaimDying [(OnConfig (Received ()), True)] w_new
       = Some (Some ErrDying, loop_deferred w_new)"
  using claimLeader_observes_dying
          [of True True
              "\<lparr>watcher = w_new, requiredEvents = 8, eventsObserved = 0, seen = (\<lambda>flag. False),
                waitLeader = False, waitMinion = False\<rparr>"
              watchers_started w_new "[(OnConfig (Received ()), True)]"]
  by (simp add: loop_watchers_def watchers_started_def required_def)

text \<open>
  C9 as the claim states it fails: with the tomb killed and the claim of leadership not
  ready, whatever the runtime picks, the \<open>select\<close> takes the dying case and the loop
  returns the dying sentinel.
\<close>

theorem claimLeader_dying_counterexample:
  "claimLeader_select True None False = Some ClaimDying
   \<and> claimLeader_select True None True = Some ClaimDying
   \<and> loop watchers_started ClaimDying [] w_new = Some (Some ErrDying, loop_deferred w_new)"
  by (simp add: loop_def loop_watchers_def watchers_started_def required_def loop_claimLeader_def)

subsection \<open>ConfigVersion\<close>

lemma sint_add_nat:
  assumes "sint (x :: 'a::len word) + int n < 2 ^ (LENGTH('a) - 1)"
  shows "sint (x + of_nat n) = sint x + int n"
proof -
  have "x + of_nat n = word_of_int (sint x + int n)" by simp
  then have "sint (x + of_nat n) = signed_take_bit (LENGTH('a) - 1) (sint x + int n)"
    by (metis sint_sbintrunc')
  moreover have "- (2 ^ (LENGTH('a) - 1)) \<le> sint x + int n"
    using sint_ge [of x] by linarith
  ultimately show ?thesis using assms by (simp add: signed_take_bit_int_eq_self)
qed

lemma Snapshot_read_ConfigVersion [simp]:
  "ConfigVersion (Snapshot_read w) = ConfigVersion (current w)"
  by (simp add: Snapshot_read_def)

lemma relationsChanged_key_cv:
  "ConfigVersion (current (snd (relationsChanged_key key r w))) = ConfigVersion (current w)"
  by (simp add: relationsChanged_key_def Let_def
      split: sum.splits option.splits in_select.splits prod.splits)

lemma relationsChanged_cv:
  "ConfigVersion (current (snd (relationsChanged keys w))) = ConfigVersion (current w)"
proof (induction keys arbitrary: w)
  case Nil
  then show ?case by simp
next
  case (Cons k keys)
  obtain key r where k: "k = (key, r)" by (cases k)
  obtain err w' where h: "relationsChanged_key key r w = (err, w')"
    by (cases "relationsChanged_key key r w")
  have "ConfigVersion (current w') = ConfigVersion (current w)"
    using relationsChanged_key_cv [of key r w] h by simp
  then show ?case using Cons.IH [of w'] h k by (cases err) simp_all
qed

lemma storageChanged_result_cv:
  "ConfigVersion (current (snd (storageChanged_result r i result tag w)))
     = ConfigVersion (current w)"
  by (simp add: storageChanged_result_def startStorageAttachmentWatcher_def
      stopStorageAttachmentWatcher_def Let_def split: option.splits prod.splits)

lemma storageChanged_results_cv:
  "ConfigVersion (current (snd (storageChanged_results r i results tags w)))
     = ConfigVersion (current w)"
proof (induction r i results tags w rule: storageChanged_results.induct)
  case (3 r i result results tag tags w)
  obtain err w' where h: "storageChanged_result r i result tag w = (err, w')"
    by (cases "storageChanged_result r i result tag w")
  have "ConfigVersion (current w') = ConfigVersion (current w)"
    using storageChanged_result_cv [of r i result tag w] h by simp
  then show ?case using 3 h by (cases err) simp_all
qed simp_all

lemma storageChanged_cv:
  "ConfigVersion (current (snd (storageChanged keys r w))) = ConfigVersion (current w)"
  by (simp add: storageChanged_def storageChanged_results_cv split: sum.splits)

lemma handled_watcher: "watcher (snd (handled f s res)) = snd res"
  by (cases res) (auto simp: handled_def observedEvent_def split: option.splits)

lemma fire_current: "current (watcher (fire rcv s)) = current (watcher s)"
  by (simp add: fire_def)

lemma loop_case_cv:
  "cv (snd (loop_case e s)) = cv s + (if counts_config e then 1 else 0)"
proof (cases e)
  case (OnUnit x)
  then show ?thesis
    by (cases x) (simp_all add: handled_watcher unitChanged_def split: option.splits sum.splits)
next
  case (OnService x)
  then show ?thesis
    by (cases x)
      (simp_all add: handled_watcher serviceChanged_def
        split: option.splits sum.splits prod.splits)
next
  case (OnConfig x)
  then show ?thesis by (cases x) (simp_all add: handled_watcher configChanged_def)
next
  case (OnAddresses x)
  then show ?thesis by (cases x) (simp_all add: handled_watcher addressesChanged_def)
next
  case (OnLeaderSettings x)
  then show ?thesis by (cases x) (simp_all add: handled_watcher leaderSettingsChanged_def)
next
  case (OnRelations x)
  then show ?thesis by (cases x) (simp_all add: handled_watcher relationsChanged_cv)
next
  case (OnStorage x)
  then show ?thesis
  proof (cases x)
    case (Received p)
    then show ?thesis using OnStorage by (cases p) (simp add: handled_watcher storageChanged_cv)
  qed simp
next
  case (OnStorageAttachment x)
  then show ?thesis by (cases x) (simp_all add: storageAttachmentChanged_def)
next
  case (OnRelationUnits x)
  then show ?thesis by (simp add: relationUnitsChanged_def split: option.splits)
qed (simp_all add: leadershipChanged_def)

lemma loop_for_cv:
  "loop_for es s = Some (err, s') \<Longrightarrow>
   \<exists>k\<le>config_events es. cv s' = cv s + of_nat k \<and> (err = None \<longrightarrow> k = config_events es)"
proof (induction es arbitrary: s)
  case Nil
  then show ?case by (simp add: config_events_def)
next
  case (Cons x es)
  obtain e rcv where x: "x = (e, rcv)" by (cases x)
  obtain err1 s1 where h: "loop_case e s = (err1, s1)" by (cases "loop_case e s")
  have c1: "cv s1 = cv s + (if counts_config e then 1 else 0)"
    using loop_case_cv [of e s] h by simp
  have en: "enabled e s" using Cons.prems x by (auto split: if_splits)
  show ?case
  proof (cases err1)
    case None
    then have "loop_for es (fire rcv s1) = Some (err, s')"
      using Cons.prems x h en by simp
    from Cons.IH [OF this] obtain k where k: "k \<le> config_events es"
      "cv s' = cv (fire rcv s1) + of_nat k" "err = None \<longrightarrow> k = config_events es" by blast
    show ?thesis
    proof (cases "counts_config e")
      case True
      then have "Suc k \<le> config_events (x # es)" "cv s' = cv s + of_nat (Suc k)"
        "err = None \<longrightarrow> Suc k = config_events (x # es)"
        using k c1 x by (simp_all add: config_events_def fire_current)
      then show ?thesis by blast
    next
      case False
      then have "k \<le> config_events (x # es)" "cv s' = cv s + of_nat k"
        "err = None \<longrightarrow> k = config_events (x # es)"
        using k c1 x by (simp_all add: config_events_def fire_current)
      then show ?thesis by blast
    qed
  next
    case (Some a)
    then have r: "s' = s1" "err = Some a" using Cons.prems x h en by simp_all
    show ?thesis
    proof (cases "counts_config e")
      case True
      then have "Suc 0 \<le> config_events (x # es)" "cv s' = cv s + of_nat (Suc 0)"
        using c1 x r by (simp_all add: config_events_def)
      then show ?thesis using r by blast
    next
      case False
      then have "0 \<le> config_events (x # es)" "cv s' = cv s + of_nat 0"
        using c1 x r by (simp_all add: config_events_def)
      then show ?thesis using r by blast
    qed
  qed
qed

text \<open>
  C2, as the code has it: \<open>configChanged\<close> and \<open>addressesChanged\<close> both return nil and add
  one to the same counter \<open>ConfigVersion\<close>, in the arithmetic of Go's \<open>int\<close>, which wraps
  around. No other handler changes it. So in every run of the loop the \<open>ConfigVersion\<close>
  that \<open>Snapshot\<close> reads (as a signed number) does not decrease and grows by the number of
  config and addresses changes handled, as long as this sum stays below \<open>2 ^ (w - 1)\<close>,
  where \<open>w\<close> is the width of \<open>int\<close>.
\<close>

theorem ConfigVersion_counts:
  fixes s :: "'w::len loop_state" and w :: "'w RemoteStateWatcher"
  assumes run: "loop_for es s = Some (err, s')"
    and bound: "sint (cv s) + int (config_events es) < 2 ^ (LENGTH('w) - 1)"
  shows "fst (configChanged w) = None
       \<and> ConfigVersion (Snapshot_read (snd (configChanged w))) = ConfigVersion (Snapshot_read w) + 1
       \<and> fst (addressesChanged w) = None
       \<and> ConfigVersion (Snapshot_read (snd (addressesChanged w)))
           = ConfigVersion (Snapshot_read w) + 1
       \<and> sint (cv s) \<le> sint (cv s')
       \<and> sint (cv s') \<le> sint (cv s) + int (config_events es)
       \<and> (err = None \<longrightarrow> sint (cv s') = sint (cv s) + int (config_events es))"
proof -
  from loop_for_cv [OF run] obtain k where k: "k \<le> config_events es"
    "cv s' = cv s + of_nat k" "err = None \<longrightarrow> k = config_events es" by blast
  have "sint (cv s) + int k < 2 ^ (LENGTH('w) - 1)" using bound k(1) by linarith
  then have "sint (cv s') = sint (cv s) + int k" using k(2) sint_add_nat by metis
  then have "sint (cv s) \<le> sint (cv s')" "sint (cv s') \<le> sint (cv s) + int (config_events es)"
    "err = None \<longrightarrow> sint (cv s') = sint (cv s) + int (config_events es)"
    using k(1,3) by auto
  then show ?thesis
    by (simp add: configChanged_def addressesChanged_def)
qed

theorem ConfigVersion_counts_witness:
  "sint (cv s_claimed) = 0 \<and> config_events es_config = 2
   \<and> map_option fst (loop_for es_config s_claimed) = Some None
   \<and> map_option (\<lambda>(err, s'). sint (cv s')) (loop_for es_config s_claimed) = Some 2"
  using ConfigVersion_counts
          [of es_config s_claimed None "snd (the (loop_for es_config s_claimed))" w_new]
  by (simp add: run_simps w_new_simps es_config_def s_claimed_def configChanged_def
        addressesChanged_def relationUnitsChanged_def config_events_def
      del: loop_for.simps(2))

lemma loop_for_config_total:
  "\<exists>s'. loop_for (replicate n (OnConfig (Received ()), rcv)) s = Some (None, s')"
proof (induction n arbitrary: s)
  case 0
  then show ?case by simp
next
  case (Suc n)
  obtain s1 where "loop_case (OnConfig (Received ())) s = (None, s1)"
    by (simp add: handled_def configChanged_def)
  then show ?case using Suc [of "fire rcv s1"] by simp
qed

lemma config_events_replicate:
  "config_events (replicate n (OnConfig (Received ()), rcv)) = n"
  by (simp add: config_events_def)

lemma loop_config_run:
  "ConfigVersion_after
     (loop watchers_started (ClaimReady b) (replicate n (OnConfig (Received ()), rcv)) w)
     = Some (sint (ConfigVersion (current w) + of_nat n))"
proof -
  obtain s0 where s0: "loop_watchers watchers_started w = Inr s0" "watcher s0 = w"
    by (simp add: loop_watchers_def watchers_started_def required_def)
  obtain s1 where s1: "loop_claimLeader (ClaimReady b) s0 = Inr s1"
    "cv s1 = ConfigVersion (current w)"
    using s0 by (simp add: loop_claimLeader_def leadershipChanged_def observedEvent_def Let_def)
  obtain s2 where s2: "loop_for (replicate n (OnConfig (Received ()), rcv)) s1 = Some (None, s2)"
    using loop_for_config_total by blast
  from loop_for_cv [OF s2] have "cv s2 = cv s1 + of_nat n"
    by (simp add: config_events_replicate)
  then show ?thesis using s0 s1 s2
    by (simp add: loop_def ConfigVersion_after_def)
qed

text \<open>
  C2 as the claim states it fails where \<open>int\<close> has 64 bits: after \<open>2 ^ 63 - 1\<close> config
  changes the new watcher reads the largest \<open>int\<close>, and the next config change makes
  it read the smallest one.
\<close>

theorem ConfigVersion_wraps_counterexample:
  "ConfigVersion_after (loop watchers_started (ClaimReady False)
      (replicate (2 ^ 63 - 1) (OnConfig (Received ()), False)) w_new) = Some (2 ^ 63 - 1)
   \<and> ConfigVersion_after (loop watchers_started (ClaimReady False)
      (replicate (2 ^ 63) (OnConfig (Received ()), False)) w_new) = Some (- (2 ^ 63))"
proof -
  have z: "ConfigVersion (current w_new) = 0"
    by (simp add: w_new_def init_def found_def NewWatcher_literal_def)
  have a: "sint ((0 :: 64 word) + of_nat (2 ^ 63 - 1)) = 2 ^ 63 - 1" by simp
  have b: "sint ((0 :: 64 word) + of_nat (2 ^ 63)) = - (2 ^ 63)" by simp
  show ?thesis
    unfolding loop_config_run z a b by simp
qed

subsection \<open>The gate on the first signal\<close>

lemma flag_in_all: "f \<in> set all_flags"
  by (cases f) (simp_all add: all_flags_def)

lemma all_seen_iff: "length (filter p all_flags) = 8 \<longleftrightarrow> (\<forall>f. p f)"
proof
  assume "length (filter p all_flags) = 8"
  then have "length (filter p all_flags) = length all_flags" by (simp add: all_flags_def)
  then have "\<forall>f \<in> set all_flags. p f" by (metis filter_id_conv length_filter_less less_irrefl_nat)
  then show "\<forall>f. p f" using flag_in_all by blast
next
  assume "\<forall>f. p f"
  then show "length (filter p all_flags) = 8" by (simp add: all_flags_def)
qed

lemma count_upd:
  "\<not> p f \<Longrightarrow> length (filter (p(f := True)) all_flags) = Suc (length (filter p all_flags))"
  by (cases f) (auto simp: all_flags_def)

lemma observedEvent_counted: "counted s \<Longrightarrow> counted (observedEvent f s)"
  by (simp add: counted_def observedEvent_def count_upd)

lemma relationsChanged_key_out:
  "out_sent (snd (relationsChanged_key key r w)) = out_sent w"
  by (simp add: relationsChanged_key_def Let_def
      split: sum.splits option.splits in_select.splits prod.splits)

lemma relationsChanged_out: "out_sent (snd (relationsChanged keys w)) = out_sent w"
proof (induction keys arbitrary: w)
  case Nil
  then show ?case by simp
next
  case (Cons k keys)
  obtain key r where k: "k = (key, r)" by (cases k)
  obtain err w' where h: "relationsChanged_key key r w = (err, w')"
    by (cases "relationsChanged_key key r w")
  have "out_sent w' = out_sent w"
    using relationsChanged_key_out [of key r w] h by simp
  then show ?case using Cons.IH [of w'] h k by (cases err) simp_all
qed

lemma storageChanged_result_out:
  "out_sent (snd (storageChanged_result r i result tag w)) = out_sent w"
  by (simp add: storageChanged_result_def startStorageAttachmentWatcher_def
      stopStorageAttachmentWatcher_def Let_def split: option.splits prod.splits)

lemma storageChanged_results_out:
  "out_sent (snd (storageChanged_results r i results tags w)) = out_sent w"
proof (induction r i results tags w rule: storageChanged_results.induct)
  case (3 r i result results tag tags w)
  obtain err w' where h: "storageChanged_result r i result tag w = (err, w')"
    by (cases "storageChanged_result r i result tag w")
  have "out_sent w' = out_sent w"
    using storageChanged_result_out [of r i result tag w] h by simp
  then show ?case using 3 h by (cases err) simp_all
qed simp_all

lemma storageChanged_out: "out_sent (snd (storageChanged keys r w)) = out_sent w"
  by (simp add: storageChanged_def storageChanged_results_out split: sum.splits)

lemma loop_case_out: "out_sent (watcher (snd (loop_case e s))) = out_sent (watcher s)"
proof (cases e)
  case (OnUnit x)
  then show ?thesis
    by (cases x) (simp_all add: handled_watcher unitChanged_def split: option.splits sum.splits)
next
  case (OnService x)
  then show ?thesis
    by (cases x)
      (simp_all add: handled_watcher serviceChanged_def
        split: option.splits sum.splits prod.splits)
next
  case (OnConfig x)
  then show ?thesis by (cases x) (simp_all add: handled_watcher configChanged_def)
next
  case (OnAddresses x)
  then show ?thesis by (cases x) (simp_all add: handled_watcher addressesChanged_def)
next
  case (OnLeaderSettings x)
  then show ?thesis by (cases x) (simp_all add: handled_watcher leaderSettingsChanged_def)
next
  case (OnRelations x)
  then show ?thesis by (cases x) (simp_all add: handled_watcher relationsChanged_out)
next
  case (OnStorage x)
  then show ?thesis
  proof (cases x)
    case (Received p)
    then show ?thesis using OnStorage by (cases p) (simp add: handled_watcher storageChanged_out)
  qed simp
next
  case (OnStorageAttachment x)
  then show ?thesis by (cases x) (simp_all add: storageAttachmentChanged_def)
next
  case (OnRelationUnits x)
  then show ?thesis by (simp add: relationUnitsChanged_def split: option.splits)
qed (simp_all add: leadershipChanged_def)

lemma handled_locals:
  "handled f s res = (err, s') \<Longrightarrow>
     (err \<noteq> None \<and> same_locals s s') \<or> (err = None \<and> same_locals (observedEvent f s) s')"
  by (cases res) (auto simp: handled_def same_locals_def observedEvent_def split: option.splits)

lemma loop_case_locals:
  "loop_case e s = (err, s') \<Longrightarrow>
     same_locals s s' \<or> (err = None \<and> (\<exists>f. source e = Some f \<and> same_locals (observedEvent f s) s'))"
proof (cases e)
  case (OnUnit x)
  then show "loop_case e s = (err, s') \<Longrightarrow> ?thesis"
    by (cases x) (auto dest: handled_locals simp: same_locals_def)
next
  case (OnService x)
  then show "loop_case e s = (err, s') \<Longrightarrow> ?thesis"
    by (cases x) (auto dest: handled_locals simp: same_locals_def)
next
  case (OnConfig x)
  then show "loop_case e s = (err, s') \<Longrightarrow> ?thesis"
    by (cases x) (auto dest: handled_locals simp: same_locals_def)
next
  case (OnAddresses x)
  then show "loop_case e s = (err, s') \<Longrightarrow> ?thesis"
    by (cases x) (auto dest: handled_locals simp: same_locals_def)
next
  case (OnLeaderSettings x)
  then show "loop_case e s = (err, s') \<Longrightarrow> ?thesis"
    by (cases x) (auto dest: handled_locals simp: same_locals_def)
next
  case (OnRelations x)
  then show "loop_case e s = (err, s') \<Longrightarrow> ?thesis"
    by (cases x) (auto dest: handled_locals simp: same_locals_def)
next
  case (OnStorage x)
  show "loop_case e s = (err, s') \<Longrightarrow> ?thesis"
  proof (cases x)
    case (Closed e')
    then show "loop_case e s = (err, s') \<Longrightarrow> ?thesis"
      using OnStorage by (auto simp: same_locals_def)
  next
    case (Received p)
    obtain keys r where p: "p = (keys, r)" by (cases p)
    assume "loop_case e s = (err, s')"
    then have "handled seenStorageChange s (storageChanged keys r (watcher s)) = (err, s')"
      using OnStorage Received p by simp
    from handled_locals [OF this] show ?thesis
      using OnStorage Received p by auto
  qed
next
  case (OnStorageAttachment x)
  then show "loop_case e s = (err, s') \<Longrightarrow> ?thesis"
    by (cases x) (auto simp: same_locals_def storageAttachmentChanged_def split: if_splits)
next
  case (OnRelationUnits x)
  then show "loop_case e s = (err, s') \<Longrightarrow> ?thesis"
    by (auto simp: same_locals_def split: prod.splits option.splits)
qed (auto simp: same_locals_def leadershipChanged_def)

lemma fire_locals: "same_locals s (fire rcv s)"
  by (simp add: same_locals_def fire_def)

lemma fire_out:
  "out_sent (watcher (fire rcv s)) \<noteq> out_sent (watcher s) \<Longrightarrow> eventsObserved s = requiredEvents s"
  by (simp add: fire_def split: if_splits)

lemma same_locals_inv: "same_locals s s' \<Longrightarrow> gate_inv s \<Longrightarrow> gate_inv s'"
  by (simp add: same_locals_def gate_inv_def counted_def)

lemma observedEvent_inv: "gate_inv s \<Longrightarrow> gate_inv (observedEvent f s)"
  using observedEvent_counted [of s f] by (simp add: gate_inv_def observedEvent_def)

lemma observedEvent_seen:
  "seen (observedEvent f s) g \<longleftrightarrow> seen s g \<or> g = f"
  by (simp add: observedEvent_def)

lemma gate_inv_all_seen:
  "gate_inv s \<Longrightarrow> eventsObserved s = requiredEvents s \<Longrightarrow> seen s f"
  using all_seen_iff [of "seen s"] by (simp add: gate_inv_def counted_def)

lemma loop_for_gate:
  assumes "loop_for es s = Some (err, s')" and "gate_inv s"
  shows "gate_inv s'
       \<and> (\<forall>f. seen s f \<longrightarrow> seen s' f)
       \<and> (\<forall>f. seen s' f \<longrightarrow> seen s f \<or> Some f \<in> source ` fst ` set es)
       \<and> (out_sent (watcher s') \<noteq> out_sent (watcher s) \<longrightarrow> (\<forall>f. seen s' f))"
  using assms
proof (induction es arbitrary: s)
  case Nil
  then show ?case by simp
next
  case (Cons x es)
  obtain e rcv where x: "x = (e, rcv)" by (cases x)
  obtain err1 s1 where h: "loop_case e s = (err1, s1)" by (cases "loop_case e s")
  have en: "enabled e s" using Cons.prems x by (auto split: if_splits)
  have out1: "out_sent (watcher s1) = out_sent (watcher s)"
    using loop_case_out [of e s] h by simp
  from loop_case_locals [OF h]
  have loc: "same_locals s s1 \<or> (err1 = None \<and> (\<exists>f. source e = Some f \<and> same_locals (observedEvent f s) s1))" .
  then have inv1: "gate_inv s1"
    using Cons.prems(2) same_locals_inv observedEvent_inv by blast
  have mono1: "\<forall>f. seen s f \<longrightarrow> seen s1 f"
    using loc by (auto simp: same_locals_def observedEvent_seen)
  have src1: "\<forall>f. seen s1 f \<longrightarrow> seen s f \<or> Some f = source e"
    using loc by (auto simp: same_locals_def observedEvent_seen)
  show ?case
  proof (cases err1)
    case None
    let ?s2 = "fire rcv s1"
    have run: "loop_for es ?s2 = Some (err, s')"
      using Cons.prems x h en None by simp
    have inv2: "gate_inv ?s2" using inv1 fire_locals same_locals_inv by blast
    have seen2: "seen ?s2 = seen s1" using fire_locals [of s1 rcv] by (simp add: same_locals_def)
    from Cons.IH [OF run inv2]
    have ih: "gate_inv s'" "\<forall>f. seen ?s2 f \<longrightarrow> seen s' f"
      "\<forall>f. seen s' f \<longrightarrow> seen ?s2 f \<or> Some f \<in> source ` fst ` set es"
      "out_sent (watcher s') \<noteq> out_sent (watcher ?s2) \<longrightarrow> (\<forall>f. seen s' f)" by blast+
    have a: "\<forall>f. seen s f \<longrightarrow> seen s' f" using mono1 ih(2) seen2 by simp
    have b: "\<forall>f. seen s' f \<longrightarrow> seen s f \<or> Some f \<in> source ` fst ` set (x # es)"
      using src1 ih(3) seen2 x by force
    have c: "out_sent (watcher s') \<noteq> out_sent (watcher s) \<longrightarrow> (\<forall>f. seen s' f)"
    proof
      assume d: "out_sent (watcher s') \<noteq> out_sent (watcher s)"
      show "\<forall>f. seen s' f"
      proof (cases "out_sent (watcher ?s2) = out_sent (watcher s1)")
        case True
        then show ?thesis using d out1 ih(4) by simp
      next
        case False
        then have "eventsObserved s1 = requiredEvents s1" using fire_out by blast
        then have "\<forall>f. seen s1 f" using gate_inv_all_seen inv1 by blast
        then show ?thesis using ih(2) seen2 by simp
      qed
    qed
    show ?thesis using ih(1) a b c by blast
  next
    case (Some e1)
    then have r: "s' = s1" using Cons.prems x h en by simp
    show ?thesis using r inv1 mono1 src1 out1 x by force
  qed
qed

lemma loop_claimLeader_Inr:
  assumes "loop_claimLeader (ClaimReady b) s = Inr s1"
  shows "out_sent (watcher s1) = out_sent (watcher s)" "requiredEvents s1 = requiredEvents s"
    "eventsObserved s1 = (if seen s seenLeadershipChange then eventsObserved s else eventsObserved s + 1)"
    "seen s1 = (seen s)(seenLeadershipChange := True)"
proof -
  have "s1 = observedEvent seenLeadershipChange
               (if b then s\<lparr>watcher := snd (leadershipChanged b (watcher s)), waitMinion := True\<rparr>
                else s\<lparr>watcher := snd (leadershipChanged b (watcher s)), waitLeader := True\<rparr>)"
    using assms by (simp add: loop_claimLeader_def Let_def)
  then show "out_sent (watcher s1) = out_sent (watcher s)" "requiredEvents s1 = requiredEvents s"
    "eventsObserved s1 = (if seen s seenLeadershipChange then eventsObserved s else eventsObserved s + 1)"
    "seen s1 = (seen s)(seenLeadershipChange := True)"
    by (simp_all add: observedEvent_def leadershipChanged_def fun_eq_iff)
qed

text \<open>
  C1: take any run of \<open>loop\<close>: the seven watchers are started, the claim of leadership is
  answered, and the \<open>for\<close> loop takes the cases \<open>es\<close>, to its end or to as far as it has
  got. If a signal was sent on \<open>out\<close> in this run, then eight events are required and
  eight were observed, all eight flags are set, the claim of leadership was ready, and
  each of the seven watchers has delivered a change among \<open>es\<close>. (A run up to the first
  signal is such a run: no signal comes before these changes.) Besides, \<open>fire\<close> sends only
  when \<open>eventsObserved\<close> equals \<open>requiredEvents\<close>, and \<open>observedEvent\<close> adds one to the
  counter only for a flag that is not set yet, which it sets.
\<close>

theorem initial_gate:
  assumes start: "loop_watchers r w = Inr s0"
    and claim: "loop_claimLeader c s0 = Inr s1"
    and run: "loop_for es s1 = Some (err, s2)"
    and sent: "out_sent (watcher s2) \<noteq> out_sent w"
  shows "requiredEvents s2 = 8 \<and> eventsObserved s2 = 8
       \<and> (\<forall>f. seen s2 f)
       \<and> (\<exists>isLeader. c = ClaimReady isLeader)
       \<and> (\<forall>f. f \<noteq> seenLeadershipChange \<longrightarrow> Some f \<in> source ` fst ` set es)
       \<and> (out_sent (watcher (fire receiver s)) \<noteq> out_sent (watcher s)
            \<longrightarrow> eventsObserved s = requiredEvents s)
       \<and> eventsObserved (observedEvent f s)
           = (if seen s f then eventsObserved s else eventsObserved s + 1)
       \<and> seen (observedEvent f s) f"
proof -
  have s0: "watcher s0 = w" "requiredEvents s0 = 8" "eventsObserved s0 = 0" "seen s0 = (\<lambda>f. False)"
    using start by (auto simp: loop_watchers_def required_def Let_def split: option.splits)
  obtain isLeader where c: "c = ClaimReady isLeader"
    using claim by (cases c) (simp_all add: loop_claimLeader_def)
  have s1: "out_sent (watcher s1) = out_sent w" "requiredEvents s1 = 8" "eventsObserved s1 = 1"
    "seen s1 = (\<lambda>f. f = seenLeadershipChange)"
    using loop_claimLeader_Inr [of isLeader s0 s1] claim c s0 by (simp_all add: fun_eq_iff)
  have inv: "gate_inv s1"
    using s1 by (simp add: gate_inv_def counted_def all_flags_def)
  from loop_for_gate [OF run inv]
  have g: "gate_inv s2" "\<forall>f. seen s2 f \<longrightarrow> seen s1 f \<or> Some f \<in> source ` fst ` set es"
    "out_sent (watcher s2) \<noteq> out_sent (watcher s1) \<longrightarrow> (\<forall>f. seen s2 f)" by blast+
  have all: "\<forall>f. seen s2 f" using g(3) sent s1(1) by simp
  then have "eventsObserved s2 = 8" using g(1) all_seen_iff [of "seen s2"]
    by (simp add: gate_inv_def counted_def)
  moreover have "\<forall>f. f \<noteq> seenLeadershipChange \<longrightarrow> Some f \<in> source ` fst ` set es"
    using all g(2) s1(4) by auto
  ultimately show ?thesis using g(1) all c
    by (simp add: gate_inv_def fire_def observedEvent_def)
qed


theorem initial_gate_witness:
  "loop_watchers watchers_started w_new = Inr s_started
   \<and> loop_claimLeader (ClaimReady False) s_started = Inr s_claimed
   \<and> out_sent w_new = 0
   \<and> map_option (\<lambda>(err, s). (err, eventsObserved s, out_sent (watcher s)))
        (loop_for (butlast es_initial) s_claimed) = Some (None, 7, 0)
   \<and> map_option (\<lambda>(err, s). (err, eventsObserved s, out_sent (watcher s)))
        (loop_for es_initial s_claimed) = Some (None, 8, 1)"
proof -
  have a: "loop_watchers watchers_started w_new = Inr s_started"
    by (simp add: loop_watchers_def watchers_started_def required_def s_started_def)
  have b: "loop_claimLeader (ClaimReady False) s_started = Inr s_claimed"
    by (simp add: loop_claimLeader_def leadershipChanged_def observedEvent_def s_claimed_def
        s_started_def w_new_simps)
  have c: "out_sent w_new = 0" by (simp add: w_new_simps)
  have d: "map_option (\<lambda>(err, s). (err, out_sent (watcher s))) (loop_for es_initial s_claimed)
             = Some (None, 1)"
    by (simp add: run_simps w_new_simps es_initial_def s_claimed_def configChanged_def
        addressesChanged_def unitChanged_def serviceChanged_def leaderSettingsChanged_def
        storageChanged_def del: loop_for.simps(2))
  have e: "map_option (\<lambda>(err, s). (err, eventsObserved s, out_sent (watcher s)))
             (loop_for (butlast es_initial) s_claimed) = Some (None, 7, 0)"
    by (simp add: run_simps w_new_simps es_initial_def s_claimed_def configChanged_def
        addressesChanged_def unitChanged_def serviceChanged_def leaderSettingsChanged_def
        storageChanged_def del: loop_for.simps(2))
  from d obtain s2 where s2: "loop_for es_initial s_claimed = Some (None, s2)"
    "out_sent (watcher s2) = 1" by auto
  have sent: "out_sent (watcher s2) \<noteq> out_sent w_new" using s2(2) c by simp
  from initial_gate [OF a b s2(1) sent, of True s_claimed seenUnitChange]
  have "eventsObserved s2 = 8" by blast
  then show ?thesis using a b c e s2 by simp
qed

subsection \<open>Changes of the relations of the service\<close>

lemma set_members_map_of: "set_members changed m = m ++ map_of (rev changed)"
proof (induction changed arbitrary: m)
  case Nil
  then show ?case by (simp add: set_members_def)
next
  case (Cons x changed)
  obtain u v where x: "x = (u, v)" by (cases x)
  have "set_members (x # changed) m = set_members changed (m(u \<mapsto> v))"
    using x by (simp add: set_members_def)
  also have "\<dots> = m(u \<mapsto> v) ++ map_of (rev changed)" by (rule Cons.IH)
  also have "\<dots> = m ++ map_of (rev (x # changed))"
    using x by (auto simp: fun_eq_iff map_add_def split: option.splits)
  finally show ?case .
qed

text \<open>
  C3, as the code has it: \<open>relationsChanged\<close> handles the keys of the payload in order and
  returns at the first error. For each key:
  when the lookup of the relation fails with not-found or unauthorized and the key has a
  sub-watcher, the sub-watcher is stopped; when \<open>Stop\<close> returns nil the entry of the key in
  \<open>relations\<close> and the entry of the sub-watcher's relation id in \<open>Relations\<close> are removed,
  and when \<open>Stop\<close> returns an error the handler returns it and both entries stay; when the
  key has no sub-watcher nothing changes;
  any other error of the lookup is returned as it is and nothing changes;
  when the lookup succeeds, the key has a sub-watcher and \<open>Relations\<close> has an entry for the
  id of the relation, only the \<open>Life\<close> of that entry is updated (its \<open>Members\<close> and the
  members themselves are untouched);
  when the lookup succeeds and the key has no sub-watcher, a relation-units watcher is
  started; when that fails the error is returned and nothing changes; otherwise the
  handler waits for the first change of the new watcher or for the dying channel: on a
  first change a new \<open>Members\<close> map holds the versions of its \<open>Changed\<close> entries, and the
  RelationSnapshot and the sub-watcher are entered in the two maps; when the tomb is dying
  or the channel of the new watcher is closed the handler returns \<open>tomb.ErrDying\<close>, or the
  error of the watcher, and enters nothing in the two maps.
\<close>

theorem relationsChanged_per_key:
  "relationsChanged ((key, r) # keys) w =
     (case relationsChanged_key key r w of
        (Some e, w') \<Rightarrow> (Some e, w')
      | (None, w') \<Rightarrow> relationsChanged keys w')
   \<and> (st_Relation r = Inl err \<and> IsCodeNotFoundOrCodeUnauthorized (Some err)
        \<and> relations w key = Some ruw \<and> ruw_Stop r = None \<longrightarrow>
        relationsChanged_key key r w =
          (None,
           w\<lparr>running_relation_units := running_relation_units w - {(ruw_task ruw, key)},
             relations := (relations w)(key := None),
             current := (current w)\<lparr>Relations :=
               (Relations (current w))(ruw_relationId ruw := None)\<rparr>\<rparr>))
   \<and> (st_Relation r = Inl err \<and> IsCodeNotFoundOrCodeUnauthorized (Some err)
        \<and> relations w key = Some ruw \<and> ruw_Stop r = Some stop_err \<longrightarrow>
        relationsChanged_key key r w =
          (Some (Trace stop_err),
           w\<lparr>running_relation_units := running_relation_units w - {(ruw_task ruw, key)}\<rparr>))
   \<and> (st_Relation r = Inl err \<and> IsCodeNotFoundOrCodeUnauthorized (Some err)
        \<and> relations w key = None \<longrightarrow>
        relationsChanged_key key r w = (None, w))
   \<and> (st_Relation r = Inl err \<and> \<not> IsCodeNotFoundOrCodeUnauthorized (Some err) \<longrightarrow>
        relationsChanged_key key r w = (Some err, w))
   \<and> (st_Relation r = Inr (rel_Id, rel_Life) \<and> relations w key = Some ruw
        \<and> Relations (current w) rel_Id = Some s \<longrightarrow>
        relationsChanged_key key r w =
          (None, w\<lparr>current := (current w)\<lparr>Relations :=
                   (Relations (current w))(rel_Id \<mapsto> s\<lparr>Life := rel_Life\<rparr>)\<rparr>\<rparr>))
   \<and> (st_Relation r = Inr (rel_Id, rel_Life) \<and> relations w key = None
        \<and> st_WatchRelationUnits r = Some watch_err \<longrightarrow>
        relationsChanged_key key r w = (Some (Trace watch_err), w))
   \<and> (st_Relation r = Inr (rel_Id, rel_Life) \<and> relations w key = None
        \<and> st_WatchRelationUnits r = None \<and> in_Changes r = InChange changed \<longrightarrow>
        relationsChanged_key key r w =
          (None,
           w\<lparr>running_relation_units := insert (next_task w, key) (running_relation_units w),
             next_task := Suc (next_task w),
             members := (members w)(next_addr w := map_of (rev changed)),
             next_addr := Suc (next_addr w),
             current := (current w)\<lparr>Relations := (Relations (current w))
               (rel_Id \<mapsto> \<lparr>Life = rel_Life, Members = Some (next_addr w)\<rparr>)\<rparr>,
             relations := (relations w)(key \<mapsto>
               \<lparr>ruw_relationId = rel_Id, ruw_task = next_task w\<rparr>)\<rparr>))
   \<and> (st_Relation r = Inr (rel_Id, rel_Life) \<and> relations w key = None
        \<and> st_WatchRelationUnits r = None
        \<and> (in_Changes r = InDying \<or> in_Changes r = InClosed in_err) \<longrightarrow>
        relationsChanged_key key r w =
          (if in_Changes r = InDying then Some ErrDying else Some in_err,
           w\<lparr>running_relation_units := insert (next_task w, key) (running_relation_units w),
             next_task := Suc (next_task w),
             members := (members w)(next_addr w := Map.empty),
             next_addr := Suc (next_addr w)\<rparr>))"
proof -
  have a: "relationsChanged ((key, r) # keys) w =
     (case relationsChanged_key key r w of
        (Some e, w') \<Rightarrow> (Some e, w')
      | (None, w') \<Rightarrow> relationsChanged keys w')" by simp
  have b: "relationsChanged_key key r w =
          (None,
           w\<lparr>running_relation_units := running_relation_units w - {(ruw_task ruw, key)},
             relations := (relations w)(key := None),
             current := (current w)\<lparr>Relations :=
               (Relations (current w))(ruw_relationId ruw := None)\<rparr>\<rparr>)"
    if "st_Relation r = Inl err" "IsCodeNotFoundOrCodeUnauthorized (Some err)"
      "relations w key = Some ruw" "ruw_Stop r = None"
    using that by (simp add: relationsChanged_key_def Let_def)
  have c: "relationsChanged_key key r w =
          (Some (Trace stop_err),
           w\<lparr>running_relation_units := running_relation_units w - {(ruw_task ruw, key)}\<rparr>)"
    if "st_Relation r = Inl err" "IsCodeNotFoundOrCodeUnauthorized (Some err)"
      "relations w key = Some ruw" "ruw_Stop r = Some stop_err"
    using that by (simp add: relationsChanged_key_def Let_def)
  have d: "relationsChanged_key key r w = (None, w)"
    if "st_Relation r = Inl err" "IsCodeNotFoundOrCodeUnauthorized (Some err)"
      "relations w key = None"
    using that by (simp add: relationsChanged_key_def)
  have e: "relationsChanged_key key r w = (Some err, w)"
    if "st_Relation r = Inl err" "\<not> IsCodeNotFoundOrCodeUnauthorized (Some err)"
    using that by (simp add: relationsChanged_key_def)
  have f: "relationsChanged_key key r w =
          (None, w\<lparr>current := (current w)\<lparr>Relations :=
                   (Relations (current w))(rel_Id \<mapsto> s\<lparr>Life := rel_Life\<rparr>)\<rparr>\<rparr>)"
    if "st_Relation r = Inr (rel_Id, rel_Life)" "relations w key = Some ruw"
      "Relations (current w) rel_Id = Some s"
    using that by (simp add: relationsChanged_key_def)
  have g: "relationsChanged_key key r w = (Some (Trace watch_err), w)"
    if "st_Relation r = Inr (rel_Id, rel_Life)" "relations w key = None"
      "st_WatchRelationUnits r = Some watch_err"
    using that by (simp add: relationsChanged_key_def)
  have h: "relationsChanged_key key r w =
          (None,
           w\<lparr>running_relation_units := insert (next_task w, key) (running_relation_units w),
             next_task := Suc (next_task w),
             members := (members w)(next_addr w := map_of (rev changed)),
             next_addr := Suc (next_addr w),
             current := (current w)\<lparr>Relations := (Relations (current w))
               (rel_Id \<mapsto> \<lparr>Life = rel_Life, Members = Some (next_addr w)\<rparr>)\<rparr>,
             relations := (relations w)(key \<mapsto>
               \<lparr>ruw_relationId = rel_Id, ruw_task = next_task w\<rparr>)\<rparr>)"
    if "st_Relation r = Inr (rel_Id, rel_Life)" "relations w key = None"
      "st_WatchRelationUnits r = None" "in_Changes r = InChange changed"
    using that by (simp add: relationsChanged_key_def Let_def set_members_map_of)
  have i: "relationsChanged_key key r w =
          (if in_Changes r = InDying then Some ErrDying else Some in_err,
           w\<lparr>running_relation_units := insert (next_task w, key) (running_relation_units w),
             next_task := Suc (next_task w),
             members := (members w)(next_addr w := Map.empty),
             next_addr := Suc (next_addr w)\<rparr>)"
    if "st_Relation r = Inr (rel_Id, rel_Life)" "relations w key = None"
      "st_WatchRelationUnits r = None" "in_Changes r = InDying \<or> in_Changes r = InClosed in_err"
    using that by (auto simp: relationsChanged_key_def Let_def)
  show ?thesis using a b c d e f g h i by blast
qed

theorem relationsChanged_per_key_witness:
  "relations w_new ''svc:db svc2:db'' = None
   \<and> relationsChanged_key ''svc:db svc2:db'' reply_new w_new = (None, w_related)
   \<and> relations w_related ''svc:db svc2:db'' = Some \<lparr>ruw_relationId = 0, ruw_task = 0\<rparr>
   \<and> Relations (current w_related) 0 = Some \<lparr>Life = Alive, Members = Some 0\<rparr>
   \<and> members w_related 0 ''svc2/0'' = Some 7
   \<and> (0, ''svc:db svc2:db'') \<in> running_relation_units w_related
   \<and> fst (relationsChanged_key ''svc:db svc2:db'' reply_dying w_related) = None
   \<and> Relations (current (snd (relationsChanged_key ''svc:db svc2:db'' reply_dying w_related))) 0
       = Some \<lparr>Life = Dying, Members = Some 0\<rparr>
   \<and> members (snd (relationsChanged_key ''svc:db svc2:db'' reply_dying w_related)) 0 ''svc2/0''
       = Some 7
   \<and> fst (relationsChanged_key ''svc:db svc2:db'' reply_gone w_related) = None
   \<and> relations (snd (relationsChanged_key ''svc:db svc2:db'' reply_gone w_related))
         ''svc:db svc2:db'' = None
   \<and> Relations (current (snd (relationsChanged_key ''svc:db svc2:db'' reply_gone w_related))) 0
       = None
   \<and> (0, ''svc:db svc2:db'')
       \<notin> running_relation_units
           (snd (relationsChanged_key ''svc:db svc2:db'' reply_gone w_related))
   \<and> fst (relationsChanged_key ''svc:db svc2:db'' reply_unwatched w_new)
       = Some (Trace (Failure ''cannot watch relation units''))
   \<and> relations (snd (relationsChanged_key ''svc:db svc2:db'' reply_unwatched w_new))
         ''svc:db svc2:db'' = None
   \<and> Relations (current (snd (relationsChanged_key ''svc:db svc2:db'' reply_unwatched w_new))) 0
       = None"
proof -
  let ?key = "''svc:db svc2:db''"
  let ?ruw = "\<lparr>ruw_relationId = 0, ruw_task = 0\<rparr>"
  let ?s = "\<lparr>Life = Alive, Members = Some 0\<rparr>"
  let ?gone = "NotFound ''relation svc:db svc2:db''"
  let ?fails = "Failure ''cannot watch relation units''"
  have n: "relations w_new ?key = None" "next_task w_new = 0" "next_addr w_new = 0"
    "Relations (current w_new) 0 = None"
    by (simp_all add: w_new_simps)
  from relationsChanged_per_key
         [of ?key reply_new "[]" w_new ?gone ?ruw ?fails 0 Alive ?s ?fails "[(''svc2/0'', 7)]"
            ?fails] n
  have new: "relationsChanged_key ?key reply_new w_new =
      (None,
       w_new\<lparr>running_relation_units := insert (0, ?key) (running_relation_units w_new),
             next_task := Suc 0,
             members := (members w_new)(0 := map_of (rev [(''svc2/0'', 7)])),
             next_addr := Suc 0,
             current := (current w_new)\<lparr>Relations := (Relations (current w_new))
               (0 \<mapsto> \<lparr>Life = Alive, Members = Some 0\<rparr>)\<rparr>,
             relations := (relations w_new)(?key \<mapsto> ?ruw)\<rparr>)"
    by (simp add: reply_new_def)
  then have w: "w_related =
       w_new\<lparr>running_relation_units := insert (0, ?key) (running_relation_units w_new),
             next_task := Suc 0,
             members := (members w_new)(0 := map_of (rev [(''svc2/0'', 7)])),
             next_addr := Suc 0,
             current := (current w_new)\<lparr>Relations := (Relations (current w_new))
               (0 \<mapsto> \<lparr>Life = Alive, Members = Some 0\<rparr>)\<rparr>,
             relations := (relations w_new)(?key \<mapsto> ?ruw)\<rparr>"
    by (simp add: w_related_def)
  have new': "relationsChanged_key ?key reply_new w_new = (None, w_related)"
    using new w by simp
  have t: "relations w_related ?key = Some ?ruw"
    "Relations (current w_related) 0 = Some ?s"
    "members w_related 0 ''svc2/0'' = Some 7"
    "(0, ?key) \<in> running_relation_units w_related"
    by (simp_all add: w)
  from relationsChanged_per_key
         [of ?key reply_dying "[]" w_related ?gone ?ruw ?fails 0 Dying ?s ?fails "[]" ?fails] t
  have dying: "relationsChanged_key ?key reply_dying w_related =
      (None, w_related\<lparr>current := (current w_related)\<lparr>Relations :=
         (Relations (current w_related))(0 \<mapsto> \<lparr>Life = Dying, Members = Some 0\<rparr>)\<rparr>\<rparr>)"
    by (simp add: reply_dying_def)
  from relationsChanged_per_key
         [of ?key reply_gone "[]" w_related ?gone ?ruw ?fails 0 Dying ?s ?fails "[]" ?fails] t
  have gone: "relationsChanged_key ?key reply_gone w_related =
      (None,
       w_related\<lparr>running_relation_units := running_relation_units w_related - {(0, ?key)},
                 relations := (relations w_related)(?key := None),
                 current := (current w_related)\<lparr>Relations :=
                   (Relations (current w_related))(0 := None)\<rparr>\<rparr>)"
    by (simp add: reply_gone_def IsCodeNotFoundOrCodeUnauthorized_def)
  from relationsChanged_per_key
         [of ?key reply_unwatched "[]" w_new ?gone ?ruw ?fails 0 Alive ?s ?fails "[]" ?fails] n
  have unwatched: "relationsChanged_key ?key reply_unwatched w_new = (Some (Trace ?fails), w_new)"
    by (simp add: reply_unwatched_def reply_new_def)
  show ?thesis
    using n(1,4) new' t by (simp add: dying gone unwatched)
qed

text \<open>
  C3 as the claim states it fails. The watcher has a sub-watcher for the key and the entry
  0 of \<open>Relations\<close>. When the relation is not found and \<open>Stop\<close> of the sub-watcher returns
  an error, the handler returns that error: the sub-watcher is stopped and no longer runs,
  and both entries are still there. When the lookup answers with the id 5 for the key,
  the entry 0 keeps its \<open>Life\<close> and an entry 5 appears whose \<open>Members\<close> is nil.
\<close>

theorem relationsChanged_entries_counterexample:
  "relations w_related ''svc:db svc2:db'' = Some \<lparr>ruw_relationId = 0, ruw_task = 0\<rparr>
   \<and> Relations (current w_related) 0 = Some \<lparr>Life = Alive, Members = Some 0\<rparr>
   \<and> Relations (current w_related) 5 = None
   \<and> running_relation_units w_related = {(0, ''svc:db svc2:db'')}
   \<and> fst (relationsChanged_key ''svc:db svc2:db'' reply_stop_fails w_related)
       = Some (Trace (Failure ''cannot stop the watcher''))
   \<and> running_relation_units (snd (relationsChanged_key ''svc:db svc2:db'' reply_stop_fails w_related))
       = {}
   \<and> relations (snd (relationsChanged_key ''svc:db svc2:db'' reply_stop_fails w_related))
         ''svc:db svc2:db'' = Some \<lparr>ruw_relationId = 0, ruw_task = 0\<rparr>
   \<and> Relations (current (snd (relationsChanged_key ''svc:db svc2:db'' reply_stop_fails w_related))) 0
       = Some \<lparr>Life = Alive, Members = Some 0\<rparr>
   \<and> fst (relationsChanged_key ''svc:db svc2:db'' reply_renumbered w_related) = None
   \<and> Relations (current (snd (relationsChanged_key ''svc:db svc2:db'' reply_renumbered w_related))) 0
       = Some \<lparr>Life = Alive, Members = Some 0\<rparr>
   \<and> Relations (current (snd (relationsChanged_key ''svc:db svc2:db'' reply_renumbered w_related))) 5
       = Some \<lparr>Life = Dying, Members = None\<rparr>"
proof -
  have w: "relations w_related ''svc:db svc2:db'' = Some \<lparr>ruw_relationId = 0, ruw_task = 0\<rparr>"
    "Relations (current w_related) = [0 \<mapsto> \<lparr>Life = Alive, Members = Some 0\<rparr>]"
    "running_relation_units w_related = {(0, ''svc:db svc2:db'')}"
    by (simp_all add: w_related_def relationsChanged_key_def reply_new_def w_new_simps Let_def)
  show ?thesis
    by (simp add: w relationsChanged_key_def reply_stop_fails_def reply_renumbered_def
        reply_gone_def IsCodeNotFoundOrCodeUnauthorized_def Let_def)
qed

subsection \<open>Changes of the storage of the unit\<close>



lemma storageChanged_result_registered:
  "storage_tasks_registered w \<Longrightarrow>
     storage_tasks_registered (snd (storageChanged_result r i res tag w))"
  by (auto simp: storage_tasks_registered_def storageChanged_result_def Let_def
      startStorageAttachmentWatcher_def stopStorageAttachmentWatcher_def
      split: option.splits prod.splits if_splits)

text \<open>
  The running storage-attachment tasks of a new watcher are the registered ones, and stay
  so along every run of the loop.
\<close>

lemma NewWatcher_registered:
  "NewWatcher i = Inr w \<Longrightarrow> storage_tasks_registered w"
  by (auto simp: NewWatcher_def init_def NewWatcher_literal_def storage_tasks_registered_def
      Let_def split: sum.splits prod.splits if_splits)

lemma relationsChanged_key_registered:
  "storage_tasks_registered w \<Longrightarrow> storage_tasks_registered (snd (relationsChanged_key key r w))"
  by (auto simp: storage_tasks_registered_def relationsChanged_key_def Let_def
      split: sum.splits option.splits in_select.splits prod.splits)

lemma relationsChanged_registered:
  "storage_tasks_registered w \<Longrightarrow> storage_tasks_registered (snd (relationsChanged keys w))"
proof (induction keys arbitrary: w)
  case Nil
  then show ?case by simp
next
  case (Cons k keys)
  obtain key r where k: "k = (key, r)" by (cases k)
  obtain err w' where h: "relationsChanged_key key r w = (err, w')"
    by (cases "relationsChanged_key key r w")
  have "storage_tasks_registered w'"
    using relationsChanged_key_registered [OF Cons.prems, of key r] h by simp
  then show ?case using Cons.IH [of w'] h k by (cases err) simp_all
qed

lemma storageChanged_results_registered:
  "storage_tasks_registered w \<Longrightarrow>
     storage_tasks_registered (snd (storageChanged_results r i results tags w))"
proof (induction r i results tags w rule: storageChanged_results.induct)
  case (3 r i result results tag tags w)
  obtain err w' where h: "storageChanged_result r i result tag w = (err, w')"
    by (cases "storageChanged_result r i result tag w")
  have "storage_tasks_registered w'"
    using storageChanged_result_registered [OF "3.prems", of r i result tag] h by simp
  then show ?case using 3 h by (cases err) simp_all
qed simp_all

lemma storageChanged_registered:
  "storage_tasks_registered w \<Longrightarrow> storage_tasks_registered (snd (storageChanged keys r w))"
  by (simp add: storageChanged_def storageChanged_results_registered split: sum.splits)

lemma registered_current:
  "storage_tasks_registered (w\<lparr>current := c\<rparr>) = storage_tasks_registered w"
  by (simp add: storage_tasks_registered_def)

lemma registered_members:
  "storage_tasks_registered (w\<lparr>members := m\<rparr>) = storage_tasks_registered w"
  by (simp add: storage_tasks_registered_def)

lemma registered_out:
  "storage_tasks_registered (w\<lparr>out_sent := n\<rparr>) = storage_tasks_registered w"
  by (simp add: storage_tasks_registered_def)

lemma loop_case_registered:
  assumes "storage_tasks_registered (watcher s)"
  shows "storage_tasks_registered (watcher (snd (loop_case e s)))"
proof (cases e)
  case (OnUnit x)
  then show ?thesis using assms
    by (cases x)
      (simp_all add: handled_watcher unitChanged_def registered_current
        split: option.splits sum.splits)
next
  case (OnService x)
  then show ?thesis using assms
    by (cases x)
      (simp_all add: handled_watcher serviceChanged_def registered_current
        split: option.splits sum.splits prod.splits)
next
  case (OnConfig x)
  then show ?thesis using assms
    by (cases x) (simp_all add: handled_watcher configChanged_def registered_current)
next
  case (OnAddresses x)
  then show ?thesis using assms
    by (cases x) (simp_all add: handled_watcher addressesChanged_def registered_current)
next
  case (OnLeaderSettings x)
  then show ?thesis using assms
    by (cases x) (simp_all add: handled_watcher leaderSettingsChanged_def registered_current)
next
  case (OnRelations x)
  then show ?thesis using assms
    by (cases x) (simp_all add: handled_watcher relationsChanged_registered)
next
  case (OnStorage x)
  then show ?thesis
  proof (cases x)
    case (Received p)
    then show ?thesis using OnStorage assms
      by (cases p) (simp add: handled_watcher storageChanged_registered)
  qed (use assms in simp)
next
  case (OnStorageAttachment x)
  then show ?thesis using assms
    by (cases x) (simp_all add: storageAttachmentChanged_def registered_current)
next
  case (OnRelationUnits x)
  then show ?thesis using assms
    by (simp add: relationUnitsChanged_def registered_members split: option.splits)
qed (use assms in \<open>simp_all add: leadershipChanged_def registered_current\<close>)

lemma loop_for_registered:
  "loop_for es s = Some (err, s') \<Longrightarrow> storage_tasks_registered (watcher s) \<Longrightarrow>
     storage_tasks_registered (watcher s')"
proof (induction es arbitrary: s)
  case Nil
  then show ?case by simp
next
  case (Cons x es)
  obtain e rcv where x: "x = (e, rcv)" by (cases x)
  obtain err1 s1 where h: "loop_case e s = (err1, s1)" by (cases "loop_case e s")
  have r1: "storage_tasks_registered (watcher s1)"
    using loop_case_registered [OF Cons.prems(2), of e] h by simp
  have en: "enabled e s" using Cons.prems(1) x by (auto split: if_splits)
  show ?case
  proof (cases err1)
    case None
    have "storage_tasks_registered (watcher (fire rcv s1))"
      using r1 by (simp add: fire_def registered_out)
    moreover have "loop_for es (fire rcv s1) = Some (err, s')"
      using Cons.prems(1) x h en None by simp
    ultimately show ?thesis using Cons.IH by blast
  next
    case (Some a)
    then show ?thesis using Cons.prems(1) x h en r1 by simp
  qed
qed





subsection \<open>What a Snapshot shares with the watcher\<close>

lemma w_related_facts:
  "relations w_related ''svc:db svc2:db'' = Some \<lparr>ruw_relationId = 0, ruw_task = 0\<rparr>"
  "Relations (current w_related) 0 = Some \<lparr>Life = Alive, Members = Some 0\<rparr>"
  "members w_related 0 = [''svc2/0'' \<mapsto> 7]"
  by (simp_all add: w_related_def relationsChanged_key_def reply_new_def w_new_simps Let_def
      set_members_def)

text \<open>
  C5 fails on the code. The watcher knows relation 0 with the member \<open>svc2/0\<close> at version
  7, and a caller takes a Snapshot. The \<open>Relations\<close> map of the Snapshot is a copy: when
  the relation is gone from the watcher the Snapshot still has its entry. Its \<open>Members\<close>
  map is not: after the loop has handled a change of the units of the relation
  (\<open>svc2/1\<close> at version 3 changed, \<open>svc2/0\<close> departed), the Snapshot taken before reads the
  new members; and after the caller has written a member through its Snapshot, a new
  Snapshot of the watcher reads it.
\<close>

theorem Snapshot_shares_Members:
  "read_Members (members w_related) (Snapshot_read w_related) 0 ''svc2/0'' = Some 7
   \<and> read_Members (members w_related) (Snapshot_read w_related) 0 ''svc2/1'' = None
   \<and> Relations (Snapshot_read (snd (relationsChanged_key ''svc:db svc2:db'' reply_gone w_related)))
         0 = None
   \<and> Relations (Snapshot_read w_related) 0 = Some \<lparr>Life = Alive, Members = Some 0\<rparr>
   \<and> fst (relationUnitsChanged units_change w_related) = None
   \<and> read_Members (members (snd (relationUnitsChanged units_change w_related)))
         (Snapshot_read w_related) 0 ''svc2/0'' = None
   \<and> read_Members (members (snd (relationUnitsChanged units_change w_related)))
         (Snapshot_read w_related) 0 ''svc2/1'' = Some 3
   \<and> read_Members
         (write_Members (Snapshot_read w_related) 0 ''svc2/9'' 1 (members w_related))
         (Snapshot_read (w_related\<lparr>members :=
            write_Members (Snapshot_read w_related) 0 ''svc2/9'' 1 (members w_related)\<rparr>))
         0 ''svc2/9'' = Some 1"
  by (simp add: w_related_facts read_Members_def write_Members_def Snapshot_read_def
      relationUnitsChanged_def units_change_def set_members_def delete_members_def
      relationsChanged_key_def reply_gone_def IsCodeNotFoundOrCodeUnauthorized_def Let_def)

section \<open>Properties of the bound on the txn-queue\<close>

lemma filter_with_token:
  "filter (\<lambda>x. x \<noteq> tok) (with_token tok q) = filter (\<lambda>x. x \<noteq> tok) q"
  by (simp add: with_token_def)

lemma pushed_set: "set touched = set touched' \<Longrightarrow> pushed tok touched = pushed tok touched'"
  by (simp add: pushed_def fun_eq_iff)

lemma pulled_set: "set touched = set touched' \<Longrightarrow> pulled tok touched = pulled tok touched'"
  by (simp add: pulled_def fun_eq_iff)

lemma pull_token_eq: "pull_token tok touched queues = pulled tok touched queues"
proof (induction touched arbitrary: queues)
  case Nil
  then show ?case by (simp add: pull_token_def pulled_def)
next
  case (Cons dkey touched)
  have "pull_token tok (dkey # touched) queues =
          pull_token tok touched (queues(dkey := filter (\<lambda>x. x \<noteq> tok) (queues dkey)))"
    by (simp add: pull_token_def)
  then show ?case using Cons.IH by (auto simp: pulled_def fun_eq_iff)
qed

lemma pull_pushed:
  "pull_token tok touched (pushed tok touched queues) = pulled tok touched queues"
  by (simp add: pull_token_eq pulled_def pushed_def filter_with_token fun_eq_iff)

lemma Apply_push_pushed:
  assumes "txn_queue db = pushed (token t) touched queues"
  shows "Apply_push t dkey db =
           (with_token (token t) (queues dkey),
            db\<lparr>txn_queue := pushed (token t) (dkey # touched) queues\<rparr>)"
proof -
  have q: "txn_queue db dkey =
             (if dkey \<in> set touched then with_token (token t) (queues dkey) else queues dkey)"
    using assms by (simp add: pushed_def)
  have a: "fst (Apply_push t dkey db) = with_token (token t) (queues dkey)"
    using q by (simp add: Apply_push_def Let_def with_token_def)
  have u: "(txn_queue db)(dkey := with_token (token t) (txn_queue db dkey))
             = pushed (token t) (dkey # touched) queues"
    using assms by (auto simp: pushed_def fun_eq_iff with_token_def)
  have "snd (Apply_push t dkey db) =
          db\<lparr>txn_queue := (txn_queue db)(dkey := with_token (token t) (txn_queue db dkey))\<rparr>"
    by (simp add: Apply_push_def Let_def with_token_def)
  then have b: "snd (Apply_push t dkey db) =
                  db\<lparr>txn_queue := pushed (token t) (dkey # touched) queues\<rparr>"
    by (simp only: u)
  show ?thesis using a b by (simp add: prod_eq_iff)
qed

lemma prepare_within:
  assumes "txn_queue db = pushed (token t) touched queues"
    and "MaxTxnQueueLength f_opts \<le> 0
         \<or> (\<forall>d \<in> set dkeys. int (length (with_token (token t) (queues d)))
                               \<le> MaxTxnQueueLength f_opts)"
  shows "prepare f_opts abort_err t touched dkeys db =
           (None, db\<lparr>txn_queue := pushed (token t) (rev dkeys @ touched) queues\<rparr>)"
  using assms
proof (induction dkeys arbitrary: touched db)
  case Nil
  then show ?case by simp
next
  case (Cons dkey dkeys)
  let ?db1 = "db\<lparr>txn_queue := pushed (token t) (dkey # touched) queues\<rparr>"
  have push: "Apply_push t dkey db = (with_token (token t) (queues dkey), ?db1)"
    using Apply_push_pushed [OF Cons.prems(1)] .
  have no: "\<not> (0 < MaxTxnQueueLength f_opts
               \<and> MaxTxnQueueLength f_opts < int (length (with_token (token t) (queues dkey))))"
    using Cons.prems(2) by auto
  have "prepare f_opts abort_err t (dkey # touched) dkeys ?db1 =
          (None, ?db1\<lparr>txn_queue := pushed (token t) (rev dkeys @ dkey # touched) queues\<rparr>)"
    by (rule Cons.IH) (use Cons.prems(2) in auto)
  then show ?case using push no by auto
qed

lemma prepare_exceeds:
  assumes "txn_queue db = pushed (token t) touched queues"
    and "0 < MaxTxnQueueLength f_opts"
    and "\<forall>d \<in> set pre. int (length (with_token (token t) (queues d)))
                           \<le> MaxTxnQueueLength f_opts"
    and "MaxTxnQueueLength f_opts < int (length (with_token (token t) (queues dkey)))"
  shows "prepare f_opts abort_err t touched (pre @ dkey # post) db =
           (case abortOrReload abort_err t (dkey # rev pre @ touched)
                   (db\<lparr>txn_queue := pushed (token t) (dkey # rev pre @ touched) queues\<rparr>) of
              (None, db2) \<Rightarrow>
                (Some (Errorf ''txn-queue for %v in %q has too many transactions (%d)''
                         [V (dkey_Id dkey), Q (dkey_C dkey),
                          D (length (with_token (token t) (queues dkey)))]), db2)
            | (Some err, db2) \<Rightarrow> (Some err, db2))"
  using assms
proof (induction pre arbitrary: touched db)
  case Nil
  let ?db1 = "db\<lparr>txn_queue := pushed (token t) (dkey # touched) queues\<rparr>"
  have push: "Apply_push t dkey db = (with_token (token t) (queues dkey), ?db1)"
    using Apply_push_pushed [OF Nil.prems(1)] .
  show ?case using push Nil.prems(2,4) by simp
next
  case (Cons p pre)
  let ?db1 = "db\<lparr>txn_queue := pushed (token t) (p # touched) queues\<rparr>"
  have push: "Apply_push t p db = (with_token (token t) (queues p), ?db1)"
    using Apply_push_pushed [OF Cons.prems(1)] .
  have no: "\<not> MaxTxnQueueLength f_opts < int (length (with_token (token t) (queues p)))"
    using Cons.prems(3) by auto
  have "prepare f_opts abort_err t (p # touched) (pre @ dkey # post) ?db1 =
           (case abortOrReload abort_err t (dkey # rev pre @ p # touched)
                   (?db1\<lparr>txn_queue := pushed (token t) (dkey # rev pre @ p # touched) queues\<rparr>) of
              (None, db2) \<Rightarrow>
                (Some (Errorf ''txn-queue for %v in %q has too many transactions (%d)''
                         [V (dkey_Id dkey), Q (dkey_C dkey),
                          D (length (with_token (token t) (queues dkey)))]), db2)
            | (Some err, db2) \<Rightarrow> (Some err, db2))"
    by (rule Cons.IH) (use Cons.prems in auto)
  then show ?case using push no by simp
qed

text \<open>
  C4, as the patch has it: the check reads the queue of the document with the token of
  the transaction in it (\<open>Apply\<close> has added the token unless it was there). With
  \<open>MaxTxnQueueLength\<close> greater than zero, let \<open>dkey\<close> be the first document of the
  transaction whose queue, with the token, is longer than the bound: that is a queue of at
  least as many tokens as the bound when the token is new, \<open>N\<close> being the length with the
  token. The transaction, in the state \<open>tprepared\<close> or \<open>tpreparing\<close>, is aborted by
  \<open>abortOrReload\<close>. When the abort succeeds the flusher returns the error
  \<open>txn-queue for <id> in <collection> has too many transactions (N)\<close> for \<open>dkey\<close>, the
  transaction is aborted and the token is in none of the queues of the documents handled
  so far: a queue that did not hold the token is as it was before. When the abort fails
  the flusher returns the error of the abort and the token stays in those queues. With
  \<open>MaxTxnQueueLength\<close> zero (or less), or when no queue with the token is longer than the
  bound, there is no such error and the token is in the queue of every document.
\<close>

theorem txn_queue_bound:
  "(0 < MaxTxnQueueLength f_opts
    \<and> (\<forall>d \<in> set pre. int (length (with_token (token t) (txn_queue db d)))
                          \<le> MaxTxnQueueLength f_opts)
    \<and> MaxTxnQueueLength f_opts < int (length (with_token (token t) (txn_queue db dkey)))
    \<and> (txn_State t = tprepared \<or> txn_State t = tpreparing) \<longrightarrow>
      prepare f_opts None t [] (pre @ dkey # post) db =
        (Some (Errorf ''txn-queue for %v in %q has too many transactions (%d)''
                 [V (dkey_Id dkey), Q (dkey_C dkey),
                  D (length (with_token (token t) (txn_queue db dkey)))]),
         db\<lparr>txn_queue := pulled (token t) (dkey # pre) (txn_queue db),
            txn_state := (txn_state db)(txn_Id t \<mapsto> taborted)\<rparr>)
      \<and> prepare f_opts (Some update_err) t [] (pre @ dkey # post) db =
          (Some update_err, db\<lparr>txn_queue := pushed (token t) (dkey # pre) (txn_queue db)\<rparr>))
   \<and> (MaxTxnQueueLength f_opts \<le> 0
       \<or> (\<forall>d \<in> set dkeys. int (length (with_token (token t) (txn_queue db d)))
                             \<le> MaxTxnQueueLength f_opts) \<longrightarrow>
        prepare f_opts abort_err t [] dkeys db =
          (None, db\<lparr>txn_queue := pushed (token t) dkeys (txn_queue db)\<rparr>))
   \<and> fst (Apply_push t d db) = with_token (token t) (txn_queue db d)
   \<and> (token t \<notin> set (txn_queue db d) \<longrightarrow>
        with_token (token t) (txn_queue db d) = txn_queue db d @ [token t]
        \<and> pulled (token t) touched (txn_queue db) d = txn_queue db d)
   \<and> (token t \<in> set (txn_queue db d) \<longrightarrow>
        with_token (token t) (txn_queue db d) = txn_queue db d)
   \<and> (txn_State t = tprepared \<or> txn_State t = tpreparing \<longrightarrow>
        abortOrReload None t touched db =
          (None, db\<lparr>txn_queue := pulled (token t) touched (txn_queue db),
                     txn_state := (txn_state db)(txn_Id t \<mapsto> taborted)\<rparr>)
        \<and> abortOrReload (Some update_err) t touched db = (Some update_err, db))"
proof -
  let ?L = "MaxTxnQueueLength f_opts"
  let ?tok = "token t"
  let ?Q = "txn_queue db"
  have q: "?Q = pushed ?tok [] ?Q" by (simp add: pushed_def)
  have a: "prepare f_opts None t [] (pre @ dkey # post) db =
        (Some (Errorf ''txn-queue for %v in %q has too many transactions (%d)''
                 [V (dkey_Id dkey), Q (dkey_C dkey), D (length (with_token ?tok (?Q dkey)))]),
         db\<lparr>txn_queue := pulled ?tok (dkey # pre) ?Q,
            txn_state := (txn_state db)(txn_Id t \<mapsto> taborted)\<rparr>)
      \<and> prepare f_opts (Some update_err) t [] (pre @ dkey # post) db =
          (Some update_err, db\<lparr>txn_queue := pushed ?tok (dkey # pre) ?Q\<rparr>)"
    if h: "0 < ?L" "\<forall>d \<in> set pre. int (length (with_token ?tok (?Q d))) \<le> ?L"
      "?L < int (length (with_token ?tok (?Q dkey)))"
      "txn_State t = tprepared \<or> txn_State t = tpreparing"
  proof -
    have s: "set (dkey # rev pre) = set (dkey # pre)" by simp
    have pu: "pushed ?tok (dkey # rev pre) = pushed ?tok (dkey # pre)"
      using s by (rule pushed_set)
    have pl: "pulled ?tok (dkey # rev pre) = pulled ?tok (dkey # pre)"
      using s by (rule pulled_set)
    have ok: "abortOrReload None t (dkey # rev pre)
                (db\<lparr>txn_queue := pushed ?tok (dkey # rev pre) ?Q\<rparr>) =
              (None, db\<lparr>txn_queue := pulled ?tok (dkey # pre) ?Q,
                         txn_state := (txn_state db)(txn_Id t \<mapsto> taborted)\<rparr>)"
      using h(4) pl by (simp add: abortOrReload_def pull_pushed)
    have ko: "abortOrReload (Some update_err) t (dkey # rev pre)
                (db\<lparr>txn_queue := pushed ?tok (dkey # rev pre) ?Q\<rparr>) =
              (Some update_err, db\<lparr>txn_queue := pushed ?tok (dkey # pre) ?Q\<rparr>)"
      using h(4) pu by (simp add: abortOrReload_def)
    show ?thesis
      using prepare_exceeds [OF q h(1,2,3), of None post]
        prepare_exceeds [OF q h(1,2,3), of "Some update_err" post]
      by (simp add: ok ko)
  qed
  have b: "prepare f_opts abort_err t [] dkeys db =
          (None, db\<lparr>txn_queue := pushed ?tok dkeys ?Q\<rparr>)"
    if h: "?L \<le> 0 \<or> (\<forall>d \<in> set dkeys. int (length (with_token ?tok (?Q d))) \<le> ?L)"
  proof -
    have "pushed ?tok (rev dkeys @ []) = pushed ?tok dkeys" by (rule pushed_set) simp
    then show ?thesis using prepare_within [OF q h, of abort_err] by simp
  qed
  have c: "fst (Apply_push t d db) = with_token ?tok (?Q d)"
    by (simp add: Apply_push_def Let_def with_token_def)
  have d: "with_token ?tok (?Q d) = ?Q d @ [?tok] \<and> pulled ?tok touched ?Q d = ?Q d"
    if "?tok \<notin> set (?Q d)"
    using that by (auto simp: with_token_def pulled_def filter_id_conv)
  have e: "with_token ?tok (?Q d) = ?Q d" if "?tok \<in> set (?Q d)"
    using that by (simp add: with_token_def)
  have f: "abortOrReload None t touched db =
          (None, db\<lparr>txn_queue := pulled ?tok touched ?Q,
                     txn_state := (txn_state db)(txn_Id t \<mapsto> taborted)\<rparr>)
        \<and> abortOrReload (Some update_err) t touched db = (Some update_err, db)"
    if "txn_State t = tprepared \<or> txn_State t = tpreparing"
    using that by (simp add: abortOrReload_def pull_token_eq)
  show ?thesis using a b c d e f by blast
qed

theorem txn_queue_bound_witness:
  "txn_State t0 = tpreparing
   \<and> token t0 \<notin> set (txn_queue db0 account)
   \<and> length (txn_queue db0 account) = 3
   \<and> MaxTxnQueueLength (bound_at 3) = 3
   \<and> prepare (bound_at 3) None t0 [] [account] db0 =
       (Some (Errorf ''txn-queue for %v in %q has too many transactions (%d)''
                [V ''0'', Q ''accounts'', D 4]),
        db0\<lparr>txn_state := (txn_state db0)(''t'' \<mapsto> taborted)\<rparr>)
   \<and> MaxTxnQueueLength (bound_at 4) = 4
   \<and> fst (prepare (bound_at 4) None t0 [] [account] db0) = None
   \<and> txn_queue (snd (prepare (bound_at 4) None t0 [] [account] db0)) account
       = [''a_1'', ''b_1'', ''c_1'', ''t_1'']
   \<and> MaxTxnQueueLength (bound_at 0) = 0
   \<and> fst (prepare (bound_at 0) None t0 [] [account] db0) = None
   \<and> txn_queue (snd (prepare (bound_at 0) None t0 [] [account] db0)) account
       = [''a_1'', ''b_1'', ''c_1'', ''t_1'']"
proof -
  let ?e = "UpdateError []"
  have l: "MaxTxnQueueLength (bound_at n) = n" for n
    by (simp add: bound_at_def SetOptions_def)
  have q: "txn_queue db0 account = [''a_1'', ''b_1'', ''c_1'']" "token t0 = ''t_1''"
    "txn_Id t0 = ''t''" "dkey_Id account = ''0''" "dkey_C account = ''accounts''"
    "txn_State t0 = tpreparing"
    by (simp_all add: db0_def token_def t0_def account_def)
  have w: "with_token ''t_1'' [''a_1'', ''b_1'', ''c_1''] = [''a_1'', ''b_1'', ''c_1'', ''t_1'']"
    by (simp add: with_token_def)
  have p: "pulled ''t_1'' [account] (txn_queue db0) = txn_queue db0"
    by (simp add: pulled_def fun_eq_iff db0_def)
  have "db0\<lparr>txn_queue := txn_queue db0, txn_state := (txn_state db0)(''t'' \<mapsto> taborted)\<rparr>
        = db0\<lparr>txn_state := (txn_state db0)(''t'' \<mapsto> taborted)\<rparr>" by simp
  with txn_queue_bound [of "bound_at 3" "[]" t0 db0 account "[]" ?e "[]" None account "[]"]
  have a: "prepare (bound_at 3) None t0 [] [account] db0 =
       (Some (Errorf ''txn-queue for %v in %q has too many transactions (%d)''
                [V ''0'', Q ''accounts'', D 4]),
        db0\<lparr>txn_state := (txn_state db0)(''t'' \<mapsto> taborted)\<rparr>)"
    by (simp add: l q w p)
  from txn_queue_bound [of "bound_at 4" "[]" t0 db0 account "[]" ?e "[account]" None account "[]"]
  have b: "prepare (bound_at 4) None t0 [] [account] db0 =
       (None, db0\<lparr>txn_queue := pushed ''t_1'' [account] (txn_queue db0)\<rparr>)"
    by (simp add: l q w)
  from txn_queue_bound [of "bound_at 0" "[]" t0 db0 account "[]" ?e "[account]" None account "[]"]
  have c: "prepare (bound_at 0) None t0 [] [account] db0 =
       (None, db0\<lparr>txn_queue := pushed ''t_1'' [account] (txn_queue db0)\<rparr>)"
    by (simp add: l q w)
  show ?thesis unfolding a b c by (simp add: l q w pushed_def)
qed

text \<open>
  C4 as the claim states it fails. The queue of the document has three tokens and the
  bound is two. When the update that sets the transaction to aborting fails, the flusher
  returns the error of the update and not the error of the bound, and the queue of the
  document has grown by the token of the transaction.
\<close>

theorem txn_abort_fails_counterexample:
  "MaxTxnQueueLength (bound_at 2) = 2
   \<and> txn_State t0 = tpreparing
   \<and> txn_queue db0 account = [''a_1'', ''b_1'', ''c_1'']
   \<and> fst (prepare (bound_at 2) (Some (UpdateError ''no reachable servers'')) t0 [] [account] db0)
       = Some (UpdateError ''no reachable servers'')
   \<and> txn_queue (snd (prepare (bound_at 2) (Some (UpdateError ''no reachable servers'')) t0 []
                        [account] db0)) account
       = [''a_1'', ''b_1'', ''c_1'', ''t_1'']"
  by (simp add: bound_at_def SetOptions_def t0_def db0_def account_def token_def
      Apply_push_def abortOrReload_def Let_def)

end
